theory Spec2Isabelle
  imports Complex_Main "HOL-Library.AList" "HOL-Library.Word"
begin

section \<open>Strings and paths of the runtime\<close>

text \<open>
  A JavaScript string is the list of its UTF-16 code units. \<open>lit\<close> turns a
  literal of ASCII characters into its code units.
\<close>

type_synonym js_string = "16 word list"

definition lit :: "string \<Rightarrow> js_string" where
  "lit s = map of_char s"

text \<open>
  \<open>String.prototype.toLowerCase\<close> is the runtime's and follows the Unicode case
  tables; every function below that calls it takes it as the parameter
  \<open>toLowerCase\<close>, and every property proved of them holds whatever it is.

  \<open>asciiLowerCase\<close> maps the letters A to Z to a to z and leaves every other code
  unit as it is. It is how a regular expression with the flag \<open>i\<close> and without
  the flag \<open>u\<close> relates the ASCII letters of its pattern to the text (no code
  unit outside ASCII is related to an ASCII letter there), and it is what
  \<open>toLowerCase\<close> returns on the text of the examples.
\<close>

definition asciiLower :: "16 word \<Rightarrow> 16 word" where
  "asciiLower u =
     (case map_of (zip (lit ''ABCDEFGHIJKLMNOPQRSTUVWXYZ'') (lit ''abcdefghijklmnopqrstuvwxyz'')) u of
        Some l \<Rightarrow> l
      | None \<Rightarrow> u)"

definition asciiLowerCase :: "js_string \<Rightarrow> js_string" where
  "asciiLowerCase s = map asciiLower s"

definition startsWith :: "js_string \<Rightarrow> js_string \<Rightarrow> bool" where
  "startsWith s p = (take (length p) s = p)"

definition endsWith :: "js_string \<Rightarrow> js_string \<Rightarrow> bool" where
  "endsWith s p = (length p \<le> length s \<and> drop (length s - length p) s = p)"

text \<open>\<open>String.prototype.includes\<close>: the needle occurs at some position.\<close>

fun str_includes :: "js_string \<Rightarrow> js_string \<Rightarrow> bool" where
  "str_includes [] t = (t = [])"
| "str_includes (c # s) t = (startsWith (c # s) t \<or> str_includes s t)"

text \<open>
  \<open>path.basename\<close> (POSIX): trailing separators are ignored, the result is what
  follows the last remaining separator. The separator \<open>/\<close> is the code unit 47.
\<close>

definition basename :: "js_string \<Rightarrow> js_string" where
  "basename p =
     rev (takeWhile (\<lambda>c. c \<noteq> 47) (dropWhile (\<lambda>c. c = 47) (rev p)))"

text \<open>
  \<open>path.join(dir, name)\<close> for a normalised directory path without a trailing
  separator and a single path component, which is how both callers use it
  (\<open>dir\<close> comes from \<open>resolvePath\<close>, \<open>name\<close> from a directory listing).
\<close>

definition path_join :: "js_string \<Rightarrow> js_string \<Rightarrow> js_string" where
  "path_join dir n = dir @ lit ''/'' @ n"

section \<open>JSON values and files\<close>

text \<open>
  A number that \<open>JSON.parse\<close> returns: a finite number other than negative
  zero is the rational it equals; a literal too large for a double parses to an
  infinity. The code never looks into a number.
\<close>

datatype js_number = Finite rat | NegativeZero | PlusInfinity | MinusInfinity

text \<open>
  What \<open>JSON.parse\<close> returns. An object is the list of its own properties in
  the order in which the runtime enumerates them, with distinct keys.
\<close>

datatype json =
  JNull
| JBool bool
| JNum js_number
| JStr js_string
| JArr "json list"
| JObj "(js_string \<times> json) list"

text \<open>
  Property read \<open>x.k\<close> on a value that is not \<open>null\<close>, for the property names
  the code reads (none of them is built into arrays, strings, numbers or
  booleans): \<open>None\<close> is \<open>undefined\<close>. Reading a property of \<open>null\<close> throws a
  TypeError; every caller below treats \<open>JNull\<close> before it reads.
\<close>

fun getProp :: "json \<Rightarrow> js_string \<Rightarrow> json option" where
  "getProp (JObj kvs) k = map_of kvs k"
| "getProp _ k = None"

text \<open>
  \<open>JSON.parse(JSON.stringify(v))\<close> for a parsed value \<open>v\<close>: what a later run reads
  of what this run writes. \<open>JSON.stringify\<close> writes an infinity as \<open>null\<close> and
  negative zero as \<open>0\<close>, and everything else so that it parses back to itself.
\<close>

primrec reread :: "json \<Rightarrow> json" where
  "reread JNull = JNull"
| "reread (JBool b) = JBool b"
| "reread (JNum n) =
     (case n of
        Finite q \<Rightarrow> JNum (Finite q)
      | NegativeZero \<Rightarrow> JNum (Finite 0)
      | PlusInfinity \<Rightarrow> JNull
      | MinusInfinity \<Rightarrow> JNull)"
| "reread (JStr s) = JStr s"
| "reread (JArr xs) = JArr (map reread xs)"
| "reread (JObj kvs) = JObj (map (map_prod id reread) kvs)"

text \<open>
  A file as the code meets it through \<open>fs.readFileSync\<close> followed by
  \<open>JSON.parse\<close>: absent, present but unreadable or not JSON, or holding the text
  of a JSON value.
\<close>

datatype disk_file = Absent | Unparsable | Content json

record dirent =
  name :: js_string
  isFile :: bool

text \<open>The filter that both directory scans apply to a listing.\<close>

definition artifactFiles :: "js_string \<Rightarrow> dirent list \<Rightarrow> js_string list" where
  "artifactFiles dir entries =
     map (\<lambda>d. path_join dir (name d))
       (filter (\<lambda>d. isFile d \<and> startsWith (name d) (lit ''codex-'') \<and>
                   endsWith (name d) (lit ''.json'')) entries)"

section \<open>Rotation index (rotate.ts)\<close>

text \<open>
  What one run of the indexer sees: the directory listing (\<open>None\<close> when
  \<open>readdirSync\<close> throws), the files, \<open>Date.parse\<close> (\<open>None\<close> is NaN), one clock
  reading \<open>Date.now()\<close> and the timestamp text of \<open>new Date().toISOString()\<close>.
\<close>

record runtime =
  readdirSync :: "js_string \<Rightarrow> dirent list option"
  disk :: "js_string \<Rightarrow> disk_file"
  Date_parse :: "js_string \<Rightarrow> int option"
  Date_now :: int
  toISOString :: js_string

text \<open>
  An entry is the object the code builds or reads back; TypeScript's
  \<open>RotateAccountEntry\<close> is erased at run time. The object literal
  \<open>{ email, file, expired, status }\<close> with \<open>expired\<close> undefined reads and
  serialises like the object without that property.
\<close>

definition mkEntry :: "js_string \<Rightarrow> js_string \<Rightarrow> js_string option \<Rightarrow> js_string \<Rightarrow> json" where
  "mkEntry e f x s =
     JObj ([(lit ''email'', JStr e), (lit ''file'', JStr f)] @
           (case x of None \<Rightarrow> [] | Some t \<Rightarrow> [(lit ''expired'', JStr t)]) @
           [(lit ''status'', JStr s)])"

definition classify :: "runtime \<Rightarrow> js_string \<Rightarrow> json" where
  "classify rt file =
     (case disk rt file of
        Content JNull \<Rightarrow> mkEntry (basename file) file None (lit ''invalid'')
      | Content data \<Rightarrow>
          (let email = (case getProp data (lit ''email'') of Some (JStr e) \<Rightarrow> e | _ \<Rightarrow> basename file);
               disabled = (getProp data (lit ''disabled'') = Some (JBool True));
               expired = (case getProp data (lit ''expired'') of Some (JStr x) \<Rightarrow> Some x | _ \<Rightarrow> None)
           in if disabled then mkEntry email file expired (lit ''disabled'')
              else if (case expired of
                         None \<Rightarrow> False
                       | Some x \<Rightarrow> x \<noteq> [] \<and>
                           (case Date_parse rt x of None \<Rightarrow> False | Some exp' \<Rightarrow> exp' < Date_now rt))
              then mkEntry email file expired (lit ''expired'')
              else mkEntry email file expired (lit ''active''))
      | _ \<Rightarrow> mkEntry (basename file) file None (lit ''invalid''))"

definition hasStatus :: "js_string \<Rightarrow> json \<Rightarrow> bool" where
  "hasStatus s a = (getProp a (lit ''status'') = Some (JStr s))"

record RotateIndex =
  generated_at :: js_string
  total :: nat
  active :: nat
  expired :: nat
  disabled :: nat
  invalid :: nat
  accounts :: "json list"

definition mkIndex :: "js_string \<Rightarrow> json list \<Rightarrow> RotateIndex" where
  "mkIndex stamp accs =
     \<lparr> generated_at = stamp,
       total = length accs,
       active = length (filter (hasStatus (lit ''active'')) accs),
       expired = length (filter (hasStatus (lit ''expired'')) accs),
       disabled = length (filter (hasStatus (lit ''disabled'')) accs),
       invalid = length (filter (hasStatus (lit ''invalid'')) accs),
       accounts = accs \<rparr>"

definition buildRotationIndex :: "runtime \<Rightarrow> js_string \<Rightarrow> RotateIndex option" where
  "buildRotationIndex rt dir =
     (case readdirSync rt dir of
        None \<Rightarrow> None
      | Some entries \<Rightarrow>
          Some (mkIndex (toISOString rt) (map (classify rt) (artifactFiles dir entries))))"

text \<open>
  The type guard of \<open>writeRotationIndex\<close>: a non-null object (an array is one, but
  has neither property) whose \<open>email\<close> and \<open>file\<close> are strings.
\<close>

definition wellFormed :: "json \<Rightarrow> bool" where
  "wellFormed x =
     (case x of
        JObj kvs \<Rightarrow>
          (case map_of kvs (lit ''email'') of
             Some (JStr e) \<Rightarrow> (case map_of kvs (lit ''file'') of Some (JStr f) \<Rightarrow> True | _ \<Rightarrow> False)
           | _ \<Rightarrow> False)
      | _ \<Rightarrow> False)"

text \<open>
  \<open>accountKey\<close> throws a TypeError (\<open>None\<close>) unless \<open>email\<close> and \<open>file\<close> are
  strings.
\<close>

definition accountKey :: "(js_string \<Rightarrow> js_string) \<Rightarrow> json \<Rightarrow> js_string option" where
  "accountKey toLowerCase entry =
     (case entry of
        JObj kvs \<Rightarrow>
          (case map_of kvs (lit ''email'') of
             Some (JStr e) \<Rightarrow>
               (case map_of kvs (lit ''file'') of
                  Some (JStr f) \<Rightarrow> Some (toLowerCase e @ lit ''|'' @ toLowerCase (basename f))
                | _ \<Rightarrow> None)
           | _ \<Rightarrow> None)
      | _ \<Rightarrow> None)"

text \<open>
  The entries kept from the file at \<open>outPath\<close>: none when the file is absent,
  cannot be read or parsed, parses to \<open>null\<close> (the property read throws inside
  the \<open>try\<close>) or has no array under \<open>accounts\<close>.
\<close>

definition existingAccounts :: "disk_file \<Rightarrow> json list" where
  "existingAccounts prior =
     (case prior of
        Content parsed \<Rightarrow>
          (case getProp parsed (lit ''accounts'') of
             Some (JArr xs) \<Rightarrow> filter wellFormed xs
           | _ \<Rightarrow> [])
      | _ \<Rightarrow> [])"

text \<open>
  The two \<open>for\<close> loops over a \<open>Map\<close>: \<open>Map.set\<close> replaces the value of a key that
  is present, in place, and appends a new key at the end, which is
  \<^const>\<open>AList.update\<close>. The loop stops with the exception of \<open>accountKey\<close>.
\<close>

fun setAll ::
  "(js_string \<Rightarrow> js_string) \<Rightarrow> json list \<Rightarrow> (js_string \<times> json) list \<Rightarrow>
     (js_string \<times> json) list option" where
  "setAll toLowerCase [] merged = Some merged"
| "setAll toLowerCase (acc # accs) merged =
     (case accountKey toLowerCase acc of
        None \<Rightarrow> None
      | Some k \<Rightarrow> setAll toLowerCase accs (AList.update k acc merged))"

text \<open>
  What is read back of \<open>JSON.stringify(finalIndex, null, 2)\<close>. The counts are
  finite numbers and the timestamp is a string; the entries are written as
  \<open>JSON.stringify\<close> writes them.
\<close>

definition indexJson :: "RotateIndex \<Rightarrow> json" where
  "indexJson ix =
     JObj [(lit ''generated_at'', JStr (generated_at ix)),
           (lit ''total'', JNum (Finite (of_nat (total ix)))),
           (lit ''active'', JNum (Finite (of_nat (active ix)))),
           (lit ''expired'', JNum (Finite (of_nat (expired ix)))),
           (lit ''disabled'', JNum (Finite (of_nat (disabled ix)))),
           (lit ''invalid'', JNum (Finite (of_nat (invalid ix)))),
           (lit ''accounts'', JArr (map reread (accounts ix)))]"

text \<open>
  \<open>mergedIndex\<close> is the \<open>finalIndex\<close> of \<open>writeRotationIndex\<close>, given the file found
  at \<open>outPath\<close>; \<open>writeRotationIndex\<close> returns the state of that file after
  \<open>fs.writeFileSync\<close> has written the serialised index, or \<open>None\<close> when the
  function throws before it writes. A write that fails is not modelled.
\<close>

definition mergedIndex ::
  "(js_string \<Rightarrow> js_string) \<Rightarrow> js_string \<Rightarrow> disk_file \<Rightarrow> RotateIndex \<Rightarrow> RotateIndex option" where
  "mergedIndex toLowerCase stamp prior index =
     (case setAll toLowerCase (existingAccounts prior) [] of
        None \<Rightarrow> None
      | Some m1 \<Rightarrow>
          (case setAll toLowerCase (accounts index) m1 of
             None \<Rightarrow> None
           | Some merged \<Rightarrow> Some (mkIndex stamp (map snd merged))))"

definition writeRotationIndex ::
  "(js_string \<Rightarrow> js_string) \<Rightarrow> js_string \<Rightarrow> disk_file \<Rightarrow> RotateIndex \<Rightarrow> disk_file option" where
  "writeRotationIndex toLowerCase stamp prior index =
     map_option (\<lambda>ix. Content (indexJson ix)) (mergedIndex toLowerCase stamp prior index)"

text \<open>The rotate-index command: scan, then merge into the file at \<open>outPath\<close>.\<close>

definition runRotateIndexCommand ::
  "(js_string \<Rightarrow> js_string) \<Rightarrow> runtime \<Rightarrow> js_string \<Rightarrow> disk_file \<Rightarrow> disk_file option" where
  "runRotateIndexCommand toLowerCase rt dir prior =
     (case buildRotationIndex rt dir of
        None \<Rightarrow> None
      | Some index \<Rightarrow> writeRotationIndex toLowerCase (toISOString rt) prior index)"

text \<open>Each entry paired with its key, for entries whose key is defined.\<close>

definition keyed :: "(js_string \<Rightarrow> js_string) \<Rightarrow> json list \<Rightarrow> (js_string \<times> json) list" where
  "keyed toLowerCase xs = map (\<lambda>a. (the (accountKey toLowerCase a), a)) xs"

text \<open>Every value of the \<open>Map\<close> is stored under its own key.\<close>

definition keysMatch :: "(js_string \<Rightarrow> js_string) \<Rightarrow> (js_string \<times> json) list \<Rightarrow> bool" where
  "keysMatch toLowerCase m = (\<forall>p \<in> set m. accountKey toLowerCase (snd p) = Some (fst p))"

text \<open>The four literals of \<open>RotateAccountEntry.status\<close>.\<close>

definition statuses :: "js_string list" where
  "statuses = [lit ''active'', lit ''expired'', lit ''disabled'', lit ''invalid'']"

definition validStatus :: "json \<Rightarrow> bool" where
  "validStatus a = (\<exists>s \<in> set statuses. hasStatus s a)"

text \<open>The counts of an index are those of its \<open>accounts\<close>.\<close>

definition countsMatch :: "RotateIndex \<Rightarrow> bool" where
  "countsMatch ix =
     (total ix = length (accounts ix) \<and>
      active ix = length (filter (hasStatus (lit ''active'')) (accounts ix)) \<and>
      expired ix = length (filter (hasStatus (lit ''expired'')) (accounts ix)) \<and>
      disabled ix = length (filter (hasStatus (lit ''disabled'')) (accounts ix)) \<and>
      invalid ix = length (filter (hasStatus (lit ''invalid'')) (accounts ix)))"

text \<open>The \<open>accounts\<close> array of an index file.\<close>

definition accountsOf :: "disk_file \<Rightarrow> json list" where
  "accountsOf f =
     (case f of
        Content parsed \<Rightarrow> (case getProp parsed (lit ''accounts'') of Some (JArr xs) \<Rightarrow> xs | _ \<Rightarrow> [])
      | _ \<Rightarrow> [])"

text \<open>
  The counts in an index file are those of its \<open>accounts\<close> array: what
  \<^const>\<open>countsMatch\<close> says of the index in memory, said of the file.
\<close>

definition countIs :: "json \<Rightarrow> js_string \<Rightarrow> nat \<Rightarrow> bool" where
  "countIs parsed k n = (getProp parsed k = Some (JNum (Finite (of_nat n))))"

definition countsMatchFile :: "disk_file \<Rightarrow> bool" where
  "countsMatchFile f =
     (case f of
        Content parsed \<Rightarrow>
          countIs parsed (lit ''total'') (length (accountsOf f)) \<and>
          countIs parsed (lit ''active'') (length (filter (hasStatus (lit ''active'')) (accountsOf f))) \<and>
          countIs parsed (lit ''expired'') (length (filter (hasStatus (lit ''expired'')) (accountsOf f))) \<and>
          countIs parsed (lit ''disabled'') (length (filter (hasStatus (lit ''disabled'')) (accountsOf f))) \<and>
          countIs parsed (lit ''invalid'') (length (filter (hasStatus (lit ''invalid'')) (accountsOf f)))
      | _ \<Rightarrow> False)"

subsection \<open>Example inputs\<close>

text \<open>
  A previous index of three elements: an entry whose key the scan of the
  example directory finds again under another spelling, an entry with a number
  too large for a double, and a number.
\<close>

definition prior0 :: disk_file where
  "prior0 = Content (JObj [(lit ''generated_at'', JStr (lit ''t0'')), (lit ''accounts'', JArr
     [mkEntry (lit ''A@x.com'') (lit ''/old/CODEX-A.json'') None (lit ''disabled''),
      JObj [(lit ''email'', JStr (lit ''c@x.com'')), (lit ''file'', JStr (lit ''/auth/codex-c.json'')),
            (lit ''status'', JStr (lit ''active'')), (lit ''quota'', JNum PlusInfinity)],
      JNum (Finite 3)])])"


definition exampleRuntime :: "int \<Rightarrow> js_string \<Rightarrow> runtime" where
  "exampleRuntime now stamp =
     \<lparr> readdirSync = (\<lambda>d. if d = lit ''/auth''
          then Some [\<lparr>name = lit ''codex-a.json'', isFile = True\<rparr>,
                     \<lparr>name = lit ''codex-n.json'', isFile = True\<rparr>,
                     \<lparr>name = lit ''notes.txt'', isFile = True\<rparr>]
          else None),
       disk = (\<lambda>p. if p = lit ''/auth/codex-a.json''
          then Content (JObj [(lit ''email'', JStr (lit ''a@x.com'')),
                              (lit ''expired'', JStr (lit ''2026-01-01T00:00:00Z'')),
                              (lit ''disabled'', JBool False)])
          else if p = lit ''/auth/codex-n.json'' then Content JNull
          else Absent),
       Date_parse = (\<lambda>s. if s = lit ''2026-01-01T00:00:00Z'' then Some 1767225600000 else None),
       Date_now = now,
       toISOString = stamp \<rparr>"

definition priorNoStatus :: disk_file where
  "priorNoStatus =
     Content (JObj [(lit ''accounts'',
       JArr [JObj [(lit ''email'', JStr (lit ''a@x.com'')), (lit ''file'', JStr (lit ''/auth/codex-a.json''))],
             JObj [(lit ''email'', JStr (lit ''z@x.com''))]])])"

section \<open>Challenge detection (login-flow.ts)\<close>

text \<open>
  What the probes of \<open>detectChallenge\<close> read from a live page: the body text of
  each frame of \<open>page.frames()\<close> (\<open>None\<close> when \<open>innerText\<close> rejects, which the code
  turns into the empty text), for a selector whether its first match exists and
  is visible (\<open>count() > 0 && isVisible().catch(() => false)\<close>), and
  \<open>page.content()\<close>. When \<open>count()\<close> or \<open>page.content()\<close> rejects,
  \<open>detectChallenge\<close> rejects with it; the orchestrator below has that case as
  the \<open>Inl\<close> of \<open>challengeProbe\<close>.
\<close>

record page =
  frames :: "js_string option list"
  visible :: "js_string \<Rightarrow> bool"
  content :: js_string

text \<open>The two fields of \<open>FlowConfig\<close> that \<open>detectChallenge\<close> reads.\<close>

record FlowConfig =
  challengeSelectors :: "js_string list"
  challengeTextPatterns :: "js_string list"

text \<open>
  The regular expression \<open>/\<dots> Codex|to Codex/i\<close>, whose first alternative starts
  with the three Chinese characters U+767B, U+5F55 and U+5230.
\<close>

definition consentPattern :: "js_string \<Rightarrow> bool" where
  "consentPattern text =
     (str_includes (asciiLowerCase text) ([0x767B, 0x5F55, 0x5230] @ lit '' codex'') \<or>
      str_includes (asciiLowerCase text) (lit ''to codex''))"

text \<open>\<open>slice(0, 12000)\<close> keeps the first 12000 code units.\<close>

definition frameLooksLikeConsent :: "js_string option \<Rightarrow> bool" where
  "frameLooksLikeConsent frame =
     consentPattern (take 12000 (case frame of None \<Rightarrow> [] | Some bodyText \<Rightarrow> bodyText))"

definition onCodexConsentPage :: "page \<Rightarrow> bool" where
  "onCodexConsentPage pg = list_ex frameLooksLikeConsent (frames pg)"

text \<open>
  The set \<open>overlyBroad\<close>: \<open>"verification"\<close> and the word of the two Chinese
  characters U+9A8C and U+8BC1.
\<close>

definition overlyBroad :: "js_string list" where
  "overlyBroad = [lit ''verification'', [0x9A8C, 0x8BC1]]"

definition detectChallenge :: "(js_string \<Rightarrow> js_string) \<Rightarrow> page \<Rightarrow> FlowConfig \<Rightarrow> bool" where
  "detectChallenge toLowerCase pg cfg =
     (if onCodexConsentPage pg then False
      else if list_ex (visible pg) (challengeSelectors cfg) then True
      else (let html = toLowerCase (content pg)
            in list_ex (\<lambda>t. str_includes html t)
                 (filter (\<lambda>t. t \<notin> set overlyBroad) (map toLowerCase (challengeTextPatterns cfg)))))"

section \<open>Artifact verifier (waitForAuthFileByEmail)\<close>

text \<open>
  What \<open>waitForAuthFileByEmail\<close> meets at the clock reading \<open>t\<close>: the listing of
  the directory (\<open>Inl\<close> the message of the error \<open>readdirSync\<close> throws), the files,
  and by how much the timer set at \<open>t\<close> fires later than its 1000 ms. The clock
  does not run backwards.
\<close>

record poll_world =
  listing :: "nat \<Rightarrow> js_string + dirent list"
  fileAt :: "nat \<Rightarrow> js_string \<Rightarrow> disk_file"
  lag :: "nat \<Rightarrow> nat"

text \<open>
  The test inside the \<open>try\<close> of the inner loop. A file that cannot be read or
  parsed, or that holds \<open>null\<close>, throws there and is passed over.
\<close>

definition emailMatches ::
  "(js_string \<Rightarrow> js_string) \<Rightarrow> poll_world \<Rightarrow> nat \<Rightarrow> js_string \<Rightarrow> js_string \<Rightarrow> bool" where
  "emailMatches toLowerCase w t lowerEmail file =
     (case fileAt w t file of
        Content data \<Rightarrow>
          (case getProp data (lit ''email'') of
             Some (JStr e) \<Rightarrow> toLowerCase e = lowerEmail
           | _ \<Rightarrow> False)
      | _ \<Rightarrow> False)"

function waitLoop ::
  "(js_string \<Rightarrow> js_string) \<Rightarrow> poll_world \<Rightarrow> js_string \<Rightarrow> js_string \<Rightarrow> nat \<Rightarrow> nat \<Rightarrow> nat \<Rightarrow>
     js_string + js_string option" where
  "waitLoop toLowerCase w authDir lowerEmail timeoutMs started now =
     (if now - started < timeoutMs then
        (case listing w now of
           Inl err \<Rightarrow> Inl err
         | Inr entries \<Rightarrow>
             (case find (emailMatches toLowerCase w now lowerEmail) (artifactFiles authDir entries) of
                Some file \<Rightarrow> Inr (Some file)
              | None \<Rightarrow>
                  waitLoop toLowerCase w authDir lowerEmail timeoutMs started (now + 1000 + lag w now)))
      else Inr None)"
  by pat_completeness auto
termination
  by (relation "measure (\<lambda>(toLowerCase, w, authDir, lowerEmail, timeoutMs, started, now).
        started + timeoutMs - now)") auto

declare waitLoop.simps [simp del]

definition waitForAuthFileByEmail ::
  "(js_string \<Rightarrow> js_string) \<Rightarrow> poll_world \<Rightarrow> nat \<Rightarrow> js_string \<Rightarrow> js_string \<Rightarrow> nat \<Rightarrow>
     js_string + js_string option" where
  "waitForAuthFileByEmail toLowerCase w started authDir email timeoutMs =
     waitLoop toLowerCase w authDir (toLowerCase email) timeoutMs started started"

section \<open>Batch orchestrator (main.ts)\<close>

datatype FailureCode =
  INVALID_INPUT
| LOGIN_REJECTED
| CHALLENGE_REQUIRED
| TOKEN_NOT_FOUND
| WRITE_FAILED
| CPAMC_LOGIN_FAILED
| CPAMC_LINK_NOT_FOUND
| CPAMC_OAUTH_FAILED
| CALLBACK_URL_NOT_CAPTURED
| CALLBACK_SUBMIT_FAILED
| UNKNOWN

record AccountCredential =
  email :: js_string
  password :: js_string
  plan :: "js_string option"

datatype AuthStatus = Success | Failed | Skipped

record AuthResult =
  email :: js_string
  plan :: js_string
  status :: AuthStatus
  code :: "FailureCode option"
  message :: "js_string option"
  "file" :: "js_string option"
  started_at :: js_string
  ended_at :: js_string

datatype CpamcStatus = StatusSuccess | StatusError | StatusWaiting

text \<open>\<open>CpamcAuthStatus\<close>; the orchestrator reads \<open>status\<close> and \<open>message\<close>.\<close>

record CpamcAuthStatus =
  cpamcStatus :: CpamcStatus
  cpamcMessage :: "js_string option"

text \<open>What \<open>runLoginFlow\<close> resolves to.\<close>

record FlowResult =
  finalUrl :: js_string
  challenge :: bool
  invalidCredentials :: bool
  callbackUrl :: "js_string option"

text \<open>
  What one iteration of the loop meets. Every awaited call either returns or
  throws; \<open>Inl\<close> holds the message of what it throws. \<open>challengeProbe\<close> is the page
  \<open>detectChallenge\<close> probes, or the error of a probe that rejects.
  \<open>pollCpamcAuthStatus\<close> depends on the timeout it is given. \<open>authFiles\<close> is
  what the artifact wait meets and \<open>waitStarted\<close> the clock reading when it begins.
\<close>

record attempt =
  startedAt :: js_string
  endedAt :: js_string
  newContext :: "js_string + unit"
  controlPage :: "js_string + unit"
  ensureCpamcLogin :: "js_string + unit"
  gotoOauthPage :: "js_string + unit"
  startCodexOauthAndGetUrl :: "js_string + js_string"
  getStateFromAuthUrl :: "js_string \<Rightarrow> js_string option"
  authPage :: "js_string + unit"
  runLoginFlow :: "js_string + FlowResult"
  challengeProbe :: "js_string + page"
  pollCpamcAuthStatus :: "nat \<Rightarrow> js_string + CpamcAuthStatus"
  authFiles :: poll_world
  waitStarted :: nat

text \<open>The object pushed to \<open>results\<close>.\<close>

definition mkResult ::
  "attempt \<Rightarrow> js_string \<Rightarrow> AccountCredential \<Rightarrow> AuthStatus \<Rightarrow> FailureCode option \<Rightarrow>
     js_string option \<Rightarrow> js_string option \<Rightarrow> AuthResult" where
  "mkResult w defaultPlan account st c m f =
     \<lparr> email = AccountCredential.email account,
       plan = (case AccountCredential.plan account of None \<Rightarrow> defaultPlan | Some p \<Rightarrow> p),
       status = st, code = c, message = m, file = f,
       started_at = startedAt w, ended_at = endedAt w \<rparr>"

text \<open>
  Lines 140 to 164 of main.ts: the calls up to the status poll. \<open>Inl\<close> is an
  exception, \<open>Inr None\<close> the early exit when the authorization URL has no
  \<open>state\<close> (\<open>!state\<close> holds for the empty string as well), \<open>Inr (Some \<dots>)\<close> the flow
  result, the challenge flag and the console status.
\<close>

definition gatherSignals ::
  "(js_string \<Rightarrow> js_string) \<Rightarrow> attempt \<Rightarrow> FlowConfig \<Rightarrow> nat \<Rightarrow>
     js_string + (FlowResult \<times> bool \<times> CpamcAuthStatus) option" where
  "gatherSignals toLowerCase w flow timeoutMs =
     (case controlPage w of Inl e \<Rightarrow> Inl e | Inr _ \<Rightarrow>
      case ensureCpamcLogin w of Inl e \<Rightarrow> Inl e | Inr _ \<Rightarrow>
      case gotoOauthPage w of Inl e \<Rightarrow> Inl e | Inr _ \<Rightarrow>
      case startCodexOauthAndGetUrl w of Inl e \<Rightarrow> Inl e | Inr authUrl \<Rightarrow>
      (case getStateFromAuthUrl w authUrl of
         None \<Rightarrow> Inr None
       | Some state \<Rightarrow>
           if state = [] then Inr None
           else
            (case authPage w of Inl e \<Rightarrow> Inl e | Inr _ \<Rightarrow>
             case runLoginFlow w of Inl e \<Rightarrow> Inl e | Inr flowResult \<Rightarrow>
             case (if challenge flowResult then Inr True
                   else (case challengeProbe w of
                           Inl e \<Rightarrow> Inl e
                         | Inr pg \<Rightarrow> Inr (detectChallenge toLowerCase pg flow))) of
               Inl e \<Rightarrow> Inl e
             | Inr ch \<Rightarrow>
                 (case pollCpamcAuthStatus w
                         (if invalidCredentials flowResult \<or> ch then min timeoutMs 30000
                          else timeoutMs) of
                    Inl e \<Rightarrow> Inl e
                  | Inr st \<Rightarrow> Inr (Some (flowResult, ch, st))))))"

text \<open>Lines 166 to 239: from the three signals to the result pushed.\<close>

definition reconcile ::
  "(js_string \<Rightarrow> js_string) \<Rightarrow> attempt \<Rightarrow> js_string \<Rightarrow> nat \<Rightarrow> js_string \<Rightarrow> AccountCredential \<Rightarrow>
     FlowResult \<Rightarrow> bool \<Rightarrow> CpamcAuthStatus \<Rightarrow> js_string + AuthResult" where
  "reconcile toLowerCase w outDir timeoutMs defaultPlan account flowResult ch st =
     (if invalidCredentials flowResult then
        Inr (mkResult w defaultPlan account Failed (Some LOGIN_REJECTED)
          (Some (case cpamcMessage st of
                   None \<Rightarrow> lit ''Incorrect email address or password.''
                 | Some m \<Rightarrow> m))
          None)
      else if ch then
        Inr (mkResult w defaultPlan account Failed (Some CHALLENGE_REQUIRED)
          (Some (case cpamcMessage st of
                   None \<Rightarrow> lit ''Challenge detected (captcha/2FA/verification). Skipped account.''
                 | Some m \<Rightarrow> m))
          None)
      else if cpamcStatus st = StatusError then
        Inr (mkResult w defaultPlan account Failed (Some CPAMC_OAUTH_FAILED)
          (Some (case cpamcMessage st of None \<Rightarrow> lit ''CPAMC OAuth reported failure.'' | Some m \<Rightarrow> m))
          None)
      else if cpamcStatus st = StatusWaiting then
        Inr (mkResult w defaultPlan account Failed (Some CPAMC_OAUTH_FAILED)
          (Some (lit ''Timed out waiting CPAMC authentication result.'')) None)
      else
        (case waitForAuthFileByEmail toLowerCase (authFiles w) (waitStarted w) outDir
                (AccountCredential.email account) timeoutMs of
           Inl e \<Rightarrow> Inl e
         | Inr None \<Rightarrow>
             Inr (mkResult w defaultPlan account Failed (Some WRITE_FAILED)
               (Some (lit ''OAuth completed but auth file not found.'')) None)
         | Inr (Some f) \<Rightarrow>
             if f = [] then
               Inr (mkResult w defaultPlan account Failed (Some WRITE_FAILED)
                 (Some (lit ''OAuth completed but auth file not found.'')) None)
             else Inr (mkResult w defaultPlan account Success None None (Some f))))"

text \<open>The body of the inner \<open>try\<close>.\<close>

definition tryBlock ::
  "(js_string \<Rightarrow> js_string) \<Rightarrow> attempt \<Rightarrow> FlowConfig \<Rightarrow> js_string \<Rightarrow> nat \<Rightarrow> js_string \<Rightarrow>
     AccountCredential \<Rightarrow> js_string + AuthResult" where
  "tryBlock toLowerCase w flow outDir timeoutMs defaultPlan account =
     (case gatherSignals toLowerCase w flow timeoutMs of
        Inl e \<Rightarrow> Inl e
      | Inr None \<Rightarrow>
          Inr (mkResult w defaultPlan account Failed (Some CPAMC_LINK_NOT_FOUND)
            (Some (lit ''Auth URL state not found.'')) None)
      | Inr (Some (flowResult, ch, st)) \<Rightarrow>
          reconcile toLowerCase w outDir timeoutMs defaultPlan account flowResult ch st)"

text \<open>The \<open>catch\<close> block: the code chosen from the message of the error.\<close>

definition errorCode :: "(js_string \<Rightarrow> js_string) \<Rightarrow> js_string \<Rightarrow> FailureCode" where
  "errorCode toLowerCase msg =
     (let lower = toLowerCase msg
      in if str_includes lower (lit ''management key'') then CPAMC_LOGIN_FAILED
         else if str_includes lower (lit ''auth url'') then CPAMC_LINK_NOT_FOUND
         else if str_includes lower (lit ''timeout'') then LOGIN_REJECTED
         else UNKNOWN)"

text \<open>
  \<open>try\<close>, \<open>catch\<close> and \<open>finally\<close> of one iteration: the result pushed. Closing the
  page and the context swallows its own errors and pushes nothing.
\<close>

definition processAccount ::
  "(js_string \<Rightarrow> js_string) \<Rightarrow> attempt \<Rightarrow> FlowConfig \<Rightarrow> js_string \<Rightarrow> nat \<Rightarrow> js_string \<Rightarrow>
     AccountCredential \<Rightarrow> AuthResult" where
  "processAccount toLowerCase w flow outDir timeoutMs defaultPlan account =
     (case tryBlock toLowerCase w flow outDir timeoutMs defaultPlan account of
        Inr r \<Rightarrow> r
      | Inl msg \<Rightarrow>
          mkResult w defaultPlan account Failed (Some (errorCode toLowerCase msg)) (Some msg) None)"

text \<open>
  The \<open>for\<close> loop of \<open>runAuthCommand\<close> from index \<open>i\<close> on, \<open>world i\<close> being what
  iteration \<open>i\<close> meets. \<open>browser.newContext()\<close> is awaited before the inner \<open>try\<close>:
  what it throws leaves the loop (\<open>Inl\<close>).
\<close>

fun authLoop ::
  "(js_string \<Rightarrow> js_string) \<Rightarrow> (nat \<Rightarrow> attempt) \<Rightarrow> FlowConfig \<Rightarrow> js_string \<Rightarrow> nat \<Rightarrow> js_string \<Rightarrow>
     nat \<Rightarrow> AccountCredential list \<Rightarrow> AuthResult list \<Rightarrow> js_string + AuthResult list" where
  "authLoop toLowerCase world flow outDir timeoutMs defaultPlan i [] results = Inr results"
| "authLoop toLowerCase world flow outDir timeoutMs defaultPlan i (account # rest) results =
     (case newContext (world i) of
        Inl e \<Rightarrow> Inl e
      | Inr _ \<Rightarrow>
          authLoop toLowerCase world flow outDir timeoutMs defaultPlan (Suc i) rest
            (results @ [processAccount toLowerCase (world i) flow outDir timeoutMs defaultPlan account]))"

text \<open>
  What a run that is not a dry run meets around the loop: \<open>chromium.launch\<close>,
  the iterations, \<open>browser.close()\<close> in the outer \<open>finally\<close>, and
  \<open>writeJsonFile(reportPath, summary)\<close>.
\<close>

record run_world =
  launch :: "js_string + unit"
  iteration :: "nat \<Rightarrow> attempt"
  browserClose :: "js_string + unit"
  writeReport :: "js_string + unit"

text \<open>
  \<open>runAuthCommand\<close> from line 123 on, for the accounts that \<open>loadAccountJson\<close>
  returned: \<open>Inr\<close> the \<open>results\<close> of the report written, \<open>Inl\<close> the error with which
  the function rejects, no report being written then. The outer \<open>finally\<close> runs
  whether the loop returns or throws, and what \<open>browser.close()\<close> throws there
  replaces the outcome of the loop. The delay between accounts changes nothing.
\<close>

definition runAuthCommand ::
  "(js_string \<Rightarrow> js_string) \<Rightarrow> run_world \<Rightarrow> FlowConfig \<Rightarrow> js_string \<Rightarrow> nat \<Rightarrow> js_string \<Rightarrow>
     AccountCredential list \<Rightarrow> js_string + AuthResult list" where
  "runAuthCommand toLowerCase rw flow outDir timeoutMs defaultPlan accountList =
     (case launch rw of
        Inl e \<Rightarrow> Inl e
      | Inr _ \<Rightarrow>
          (case (authLoop toLowerCase (iteration rw) flow outDir timeoutMs defaultPlan 0 accountList [],
                 browserClose rw) of
             (_, Inl e) \<Rightarrow> Inl e
           | (Inl e, Inr _) \<Rightarrow> Inl e
           | (Inr results, Inr _) \<Rightarrow>
               (case writeReport rw of
                  Inl e \<Rightarrow> Inl e
                | Inr _ \<Rightarrow> Inr results)))"

subsection \<open>Example inputs of the orchestrator\<close>

text \<open>
  The challenge selectors and text patterns of \<open>getDefaultFlowConfig\<close>; the last
  two patterns are the words of the Chinese characters U+9A8C, U+8BC1, U+7801
  and U+9A8C, U+8BC1.
\<close>

definition defaultFlow :: FlowConfig where
  "defaultFlow =
     \<lparr> challengeSelectors =
         [lit ''iframe[src*='captcha']'', lit ''[data-testid*='captcha']'', lit ''input[name='otp']'',
          lit ''input[autocomplete='one-time-code']''],
       challengeTextPatterns =
         [lit ''verification'', lit ''security check'', lit ''two-factor'', lit ''2-step'',
          [0x9A8C, 0x8BC1, 0x7801],
          [0x9A8C, 0x8BC1]] \<rparr>"

definition consentPage :: page where
  "consentPage =
     \<lparr> frames = [None, Some (lit ''Sign in to Codex with ChatGPT'')],
       visible = (\<lambda>selector. selector = lit ''input[name='otp']''),
       content = lit ''<html><body>security check</body></html>'' \<rparr>"

definition otpPage :: page where
  "otpPage =
     \<lparr> frames = [Some (lit ''Enter the code we sent you'')],
       visible = (\<lambda>selector. selector = lit ''input[name='otp']''),
       content = lit ''<html><body>Enter the code we sent you</body></html>'' \<rparr>"

definition plainPage :: page where
  "plainPage =
     \<lparr> frames = [Some (lit ''Email verification pending'')],
       visible = (\<lambda>selector. False),
       content = lit ''<html><body>Email Verification pending</body></html>'' \<rparr>"

text \<open>
  A page whose only frame shows the consent phrase after 12000 code units of
  other text, with a one-time-code field visible.
\<close>

definition longPage :: page where
  "longPage =
     \<lparr> frames = [Some (replicate 12000 120 @ lit ''Sign in to Codex with ChatGPT'')],
       visible = (\<lambda>selector. selector = lit ''input[name='otp']''),
       content = lit ''<html><body>Sign in to Codex with ChatGPT</body></html>'' \<rparr>"

definition exampleAccount :: AccountCredential where
  "exampleAccount =
     \<lparr> AccountCredential.email = lit ''a@x.com'', password = lit ''p1'', plan = Some (lit ''free'') \<rparr>"

definition secondAccount :: AccountCredential where
  "secondAccount =
     \<lparr> AccountCredential.email = lit ''b@x.com'', password = lit ''p2'', plan = None \<rparr>"

text \<open>
  A directory in which the artifact of the example account shows up after two
  seconds, half written at first, and a directory that does not exist.
\<close>

definition exampleFiles :: poll_world where
  "exampleFiles =
     \<lparr> listing = (\<lambda>t. Inr (if t < 2000 then [\<lparr>name = lit ''config.yaml'', isFile = True\<rparr>]
                            else [\<lparr>name = lit ''config.yaml'', isFile = True\<rparr>,
                                  \<lparr>name = lit ''codex-a_x.com-free.json'', isFile = True\<rparr>])),
       fileAt = (\<lambda>t p. if p = lit ''/auth/codex-a_x.com-free.json''
                        then (if t < 3000 then Unparsable
                              else Content (JObj [(lit ''email'', JStr (lit ''A@x.com''))]))
                        else Absent),
       lag = (\<lambda>t. 5) \<rparr>"

definition missingDir :: poll_world where
  "missingDir =
     \<lparr> listing = (\<lambda>t. Inl (lit ''ENOENT: no such file or directory, scandir /auth'')),
       fileAt = (\<lambda>t p. Absent),
       lag = (\<lambda>t. 0) \<rparr>"

text \<open>An iteration in which every call returns and the console reports success.\<close>

definition exampleAttempt :: attempt where
  "exampleAttempt =
     \<lparr> startedAt = lit ''2026-01-01T00:00:00.000Z'',
       endedAt = lit ''2026-01-01T00:00:09.000Z'',
       newContext = Inr (),
       controlPage = Inr (),
       ensureCpamcLogin = Inr (),
       gotoOauthPage = Inr (),
       startCodexOauthAndGetUrl = Inr (lit ''https://auth.openai.com/oauth/authorize?state=abc123''),
       getStateFromAuthUrl =
         (\<lambda>url. if url = lit ''https://auth.openai.com/oauth/authorize?state=abc123''
                then Some (lit ''abc123'') else None),
       authPage = Inr (),
       runLoginFlow =
         Inr \<lparr> finalUrl = lit ''http://localhost:1455/auth/callback?code=xyz'',
               challenge = False, invalidCredentials = False,
               callbackUrl = Some (lit ''http://localhost:1455/auth/callback?code=xyz'') \<rparr>,
       challengeProbe = Inr plainPage,
       pollCpamcAuthStatus =
         (\<lambda>timeout. Inr \<lparr> cpamcStatus = StatusSuccess, cpamcMessage = Some (lit ''ok'') \<rparr>),
       authFiles = exampleFiles,
       waitStarted = 0 \<rparr>"

definition browserClosed :: js_string where
  "browserClosed = lit ''browser.newContext: Target page, context or browser has been closed''"

text \<open>Iterations that differ from it in one or two calls.\<close>

definition badKeyAttempt :: attempt where
  "badKeyAttempt =
     exampleAttempt \<lparr> ensureCpamcLogin := Inl (lit ''CPAMC login failed: invalid management key'') \<rparr>"

definition rejectedAttempt :: attempt where
  "rejectedAttempt =
     exampleAttempt \<lparr> runLoginFlow :=
       Inr \<lparr> finalUrl = lit ''https://auth.openai.com/log-in/password'',
             challenge = False, invalidCredentials = True, callbackUrl = None \<rparr> \<rparr>"

definition rejectedPollFails :: attempt where
  "rejectedPollFails =
     rejectedAttempt \<lparr> pollCpamcAuthStatus :=
       (\<lambda>timeout. Inl (lit ''page.evaluate: TypeError: Failed to fetch'')) \<rparr>"

definition missingDirAttempt :: attempt where
  "missingDirAttempt = exampleAttempt \<lparr> authFiles := missingDir \<rparr>"

definition closedAttempt :: attempt where
  "closedAttempt = exampleAttempt \<lparr> newContext := Inl browserClosed \<rparr>"

text \<open>
  Runs over two accounts: one in which every call around the loop returns,
  one in which the browser is gone when the second context is asked for, and
  one in which \<open>browser.close()\<close> throws after a loop that went through.
\<close>

definition exampleWorld :: run_world where
  "exampleWorld =
     \<lparr> launch = Inr (),
       iteration = (\<lambda>i. if i = 0 then badKeyAttempt else exampleAttempt),
       browserClose = Inr (),
       writeReport = Inr () \<rparr>"

definition closedWorld :: run_world where
  "closedWorld =
     \<lparr> launch = Inr (),
       iteration = (\<lambda>i. if i = 0 then badKeyAttempt else closedAttempt),
       browserClose = Inr (),
       writeReport = Inr () \<rparr>"

definition closeFailsWorld :: run_world where
  "closeFailsWorld =
     exampleWorld \<lparr> browserClose := Inl (lit ''browser.close: Connection closed'') \<rparr>"

section \<open>Properties of strings and JSON values\<close>

lemma unat_of_char: "unat (of_char c :: 16 word) = of_char c"
proof -
  have lt: "(of_char c :: nat) < 256"
    using of_char_mod_256 [of c, where ?'a = nat]
    by (metis mod_less_divisor zero_less_numeral)
  have "(of_char c :: 16 word) = of_nat (of_char c)"
    by (simp only: of_nat_of_char)
  then have "unat (of_char c :: 16 word) = unat (of_nat (of_char c :: nat) :: 16 word)"
    by simp
  also have "\<dots> = of_char c mod 65536"
    by (simp add: unat_of_nat)
  also have "\<dots> = of_char c"
    by (rule mod_less) (rule less_trans [OF lt], simp)
  finally show ?thesis .
qed

lemma of_char_word_inj: "(of_char c :: 16 word) = of_char d \<longleftrightarrow> c = d"
proof
  assume "(of_char c :: 16 word) = of_char d"
  then have "unat (of_char c :: 16 word) = unat (of_char d :: 16 word)" by simp
  then have "(of_char c :: nat) = of_char d" by (simp only: unat_of_char)
  then show "c = d" by simp
qed simp

lemma lit_eq_iff [simp]: "lit s = lit t \<longleftrightarrow> s = t"
proof (induction s arbitrary: t)
  case Nil
  then show ?case by (auto simp: lit_def)
next
  case (Cons c s)
  show ?case
  proof (cases t)
    case Nil
    then show ?thesis by (simp add: lit_def)
  next
    case (Cons d t')
    have "lit (c # s) = lit (d # t') \<longleftrightarrow> (of_char c :: 16 word) = of_char d \<and> lit s = lit t'"
      by (simp add: lit_def)
    then show ?thesis
      by (simp only: Cons Cons.IH of_char_word_inj list.inject)
  qed
qed

lemma lit_eq_Nil [simp]: "(lit s = []) = (s = [])" "([] = lit s) = (s = [])"
  by (auto simp: lit_def)

lemma reread_idem: "reread (reread v) = reread v"
  by (induction v) (auto split: js_number.splits)

lemma reread_eq_JStr: "reread v = JStr s \<longleftrightarrow> v = JStr s"
  by (cases v) (auto split: js_number.splits)

lemma map_of_reread:
  "map_of (map (map_prod id reread) kvs) k = map_option reread (map_of kvs k)"
  by (induction kvs) auto

lemma getProp_reread: "getProp (reread v) k = map_option reread (getProp v k)"
  by (cases v) (auto simp: map_of_reread split: js_number.splits)

lemma getProp_reread_JStr: "getProp (reread v) k = Some (JStr s) \<longleftrightarrow> getProp v k = Some (JStr s)"
  by (cases "getProp v k") (auto simp: getProp_reread reread_eq_JStr)

lemma hasStatus_reread: "hasStatus s (reread a) = hasStatus s a"
  by (simp add: hasStatus_def getProp_reread_JStr)

lemma count_reread:
  "length (filter (hasStatus s) (map reread xs)) = length (filter (hasStatus s) xs)"
  by (induction xs) (simp_all add: hasStatus_reread)

lemma accountKey_reread: "accountKey lc (reread e) = accountKey lc e"
proof (cases e)
  case (JObj kvs)
  show ?thesis
  proof (cases "map_of kvs (lit ''email'')")
    case None
    then show ?thesis by (simp add: JObj accountKey_def map_of_reread)
  next
    case (Some v)
    note v = this
    show ?thesis
    proof (cases "\<exists>e'. v = JStr e'")
      case False
      then have "\<not> (\<exists>e'. reread v = JStr e')" by (simp add: reread_eq_JStr)
      with False show ?thesis
        by (cases v; cases "reread v") (simp_all add: JObj accountKey_def map_of_reread v)
    next
      case True
      then obtain e' where e': "v = JStr e'" by blast
      show ?thesis
      proof (cases "map_of kvs (lit ''file'')")
        case None
        then show ?thesis by (simp add: JObj accountKey_def map_of_reread v e')
      next
        case (Some u)
        show ?thesis
        proof (cases "\<exists>f'. u = JStr f'")
          case False
          then have "\<not> (\<exists>f'. reread u = JStr f')" by (simp add: reread_eq_JStr)
          with False show ?thesis
            by (cases u; cases "reread u") (simp_all add: JObj accountKey_def map_of_reread v e' Some)
        next
          case True
          then show ?thesis by (auto simp: JObj accountKey_def map_of_reread v e' Some)
        qed
      qed
    qed
  qed
qed (simp_all add: accountKey_def split: js_number.splits)

section \<open>Properties of the rotation index\<close>

lemma getProp_mkEntry_status: "getProp (mkEntry e f x s) (lit ''status'') = Some (JStr s)"
  by (cases x) (simp_all add: mkEntry_def)

lemma hasStatus_mkEntry: "hasStatus t (mkEntry e f x s) = (t = s)"
  by (auto simp: hasStatus_def getProp_mkEntry_status)

lemma accountKey_mkEntry:
  "accountKey lc (mkEntry e f x s) = Some (lc e @ (lit ''|'') @ lc (basename f))"
  by (cases x) (simp_all add: mkEntry_def accountKey_def)

lemma wellFormed_accountKey: "wellFormed x = (accountKey lc x \<noteq> None)"
  by (auto simp: wellFormed_def accountKey_def split: json.splits option.splits)

lemma wellFormed_reread: "wellFormed (reread e) = wellFormed e"
  by (simp add: wellFormed_accountKey [of _ id] accountKey_reread)

lemma reread_mkEntry: "reread (mkEntry e f x s) = mkEntry e f x s"
  by (cases x) (simp_all add: mkEntry_def)

lemma wellFormed_mkEntry: "wellFormed (mkEntry e f x s)"
  by (cases x) (simp_all add: mkEntry_def wellFormed_def)

lemma classify_cases:
  "\<exists>e x s. classify rt p = mkEntry e p x s \<and> s \<in> {(lit ''active''), (lit ''expired''), (lit ''disabled''), (lit ''invalid'')}"
  by (auto simp: classify_def Let_def split: disk_file.splits json.splits)

lemma keysMatch_update:
  "keysMatch lc m \<Longrightarrow> accountKey lc a = Some k \<Longrightarrow> keysMatch lc (AList.update k a m)"
  unfolding keysMatch_def by (induction m) auto

lemma setAll_total:
  "\<forall>a \<in> set accs. wellFormed a \<Longrightarrow> \<exists>r. setAll lc accs m = Some r"
  by (induction accs arbitrary: m) (auto simp: wellFormed_accountKey [of _ lc])

lemma setAll_wellFormed:
  "setAll lc accs m = Some r \<Longrightarrow> a \<in> set accs \<Longrightarrow> wellFormed a"
  by (induction accs arbitrary: m) (auto simp: wellFormed_accountKey [of _ lc] split: option.splits)

lemma setAll_keysMatch:
  "setAll lc accs m = Some r \<Longrightarrow> keysMatch lc m \<Longrightarrow> keysMatch lc r"
  by (induction accs arbitrary: m) (auto simp: keysMatch_update split: option.splits)

lemma setAll_distinct:
  "setAll lc accs m = Some r \<Longrightarrow> distinct (map fst m) \<Longrightarrow> distinct (map fst r)"
  by (induction accs arbitrary: m) (auto simp: distinct_update split: option.splits)

lemma setAll_dom:
  "setAll lc accs m = Some r \<Longrightarrow> fst ` set r = fst ` set m \<union> (\<lambda>a. the (accountKey lc a)) ` set accs"
proof (induction accs arbitrary: m)
  case Nil
  then show ?case by simp
next
  case (Cons a accs)
  then obtain k where k: "accountKey lc a = Some k" and r: "setAll lc accs (AList.update k a m) = Some r"
    by (auto split: option.splits)
  from Cons.IH [OF r] show ?case
    by (simp add: dom_update k Un_assoc)
qed

lemma setAll_map_of:
  "setAll lc accs m = Some r \<Longrightarrow> map_of r = map_of m ++ map_of (rev (keyed lc accs))"
proof (induction accs arbitrary: m)
  case Nil
  then show ?case by (simp add: keyed_def)
next
  case (Cons a accs)
  then obtain k where k: "accountKey lc a = Some k" and r: "setAll lc accs (AList.update k a m) = Some r"
    by (auto split: option.splits)
  have "map_of r = (map_of m)(k \<mapsto> a) ++ map_of (rev (keyed lc accs))"
    using Cons.IH [OF r] unfolding update_conv' .
  also have "\<dots> = map_of m ++ map_of (rev (keyed lc (a # accs)))"
    by (auto simp: keyed_def k fun_eq_iff map_add_def split: option.splits)
  finally show ?case .
qed

lemma setAll_values:
  "setAll lc accs m = Some r \<Longrightarrow> snd ` set r \<subseteq> snd ` set m \<union> set accs"
proof (induction accs arbitrary: m)
  case Nil
  then show ?case by simp
next
  case (Cons a accs)
  then obtain k where k: "accountKey lc a = Some k" and r: "setAll lc accs (AList.update k a m) = Some r"
    by (auto split: option.splits)
  have "snd ` set (AList.update k a m) \<subseteq> snd ` set m \<union> {a}"
    by (induction m) auto
  with Cons.IH [OF r] show ?case by auto
qed



lemma countsMatch_mkIndex: "countsMatch (mkIndex stamp accs)"
  by (simp add: countsMatch_def mkIndex_def)

lemma countsMatchFile_indexJson:
  assumes "countsMatch ix"
  shows "countsMatchFile (Content (indexJson ix))"
proof -
  have a: "accountsOf (Content (indexJson ix)) = map reread (accounts ix)"
    by (simp add: accountsOf_def indexJson_def)
  show ?thesis
    using assms unfolding countsMatchFile_def a
    by (simp add: countIs_def indexJson_def comp_def hasStatus_reread countsMatch_def)
qed

lemma partition_by_status:
  "\<forall>a \<in> set accs. validStatus a \<Longrightarrow>
     length (filter (hasStatus (lit ''active'')) accs) + length (filter (hasStatus (lit ''expired'')) accs) +
     length (filter (hasStatus (lit ''disabled'')) accs) + length (filter (hasStatus (lit ''invalid'')) accs) =
     length accs"
proof (induction accs)
  case Nil
  then show ?case by simp
next
  case (Cons a accs)
  then have "validStatus a" by simp
  then have "(if hasStatus (lit ''active'') a then 1 else 0) + (if hasStatus (lit ''expired'') a then 1 else 0) +
      (if hasStatus (lit ''disabled'') a then 1 else 0) + (if hasStatus (lit ''invalid'') a then 1 else (0::nat)) = 1"
    by (auto simp: validStatus_def statuses_def hasStatus_def)
  with Cons show ?case by (auto split: if_splits)
qed

lemma validStatus_classify: "validStatus (classify rt p)"
  using classify_cases [of rt p]
  by (auto simp: validStatus_def statuses_def hasStatus_mkEntry)

lemma wellFormed_classify: "wellFormed (classify rt p)"
  using classify_cases [of rt p]
  by (auto simp: wellFormed_accountKey [of _ lc] accountKey_mkEntry)

lemma buildRotationIndex_wellFormed:
  "buildRotationIndex rt dir = Some ix \<Longrightarrow> \<forall>b \<in> set (accounts ix). wellFormed b"
  by (auto simp: buildRotationIndex_def mkIndex_def wellFormed_classify split: option.splits)

lemma mergedIndex_Some:
  assumes "mergedIndex lc stamp prior index = Some ix"
  obtains m1 merged where "setAll lc (existingAccounts prior) [] = Some m1"
    and "setAll lc (accounts index) m1 = Some merged"
    and "ix = mkIndex stamp (map snd merged)"
  using assms by (auto simp: mergedIndex_def split: option.splits)

lemma wellFormed_existing: "a \<in> set (existingAccounts prior) \<Longrightarrow> wellFormed a"
  by (auto simp: existingAccounts_def split: disk_file.splits option.splits json.splits)

lemma mergedIndex_total:
  assumes "\<forall>b \<in> set (accounts index). wellFormed b"
  shows "\<exists>ix. mergedIndex lc stamp prior index = Some ix"
proof -
  have "\<forall>a \<in> set (existingAccounts prior). wellFormed a"
    by (simp add: wellFormed_existing)
  then obtain m1 where m1: "setAll lc (existingAccounts prior) [] = Some m1"
    using setAll_total by blast
  obtain merged where "setAll lc (accounts index) m1 = Some merged"
    using setAll_total [OF assms] by blast
  with m1 show ?thesis by (simp add: mergedIndex_def)
qed









lemma accountsOf_indexJson: "accountsOf (Content (indexJson ix)) = map reread (accounts ix)"
  by (simp add: accountsOf_def indexJson_def)

lemma existingAccounts_indexJson:
  "existingAccounts (Content (indexJson ix)) = filter wellFormed (map reread (accounts ix))"
  by (simp add: existingAccounts_def indexJson_def)






lemma wellFormed_iff:
  "wellFormed x \<longleftrightarrow>
     (\<exists>kvs e f. x = JObj kvs \<and> map_of kvs (lit ''email'') = Some (JStr e) \<and> map_of kvs (lit ''file'') = Some (JStr f))"
  by (auto simp: wellFormed_def split: json.splits option.splits)

lemma existingAccounts_array:
  "getProp parsed (lit ''accounts'') = Some (JArr A) \<Longrightarrow> existingAccounts (Content parsed) = filter wellFormed A"
  by (simp add: existingAccounts_def)

lemma merged_entries:
  assumes "mergedIndex lc stamp prior index = Some ix" and "e \<in> set (accounts ix)"
  shows "e \<in> set (existingAccounts prior) \<or> e \<in> set (accounts index)"
proof -
  from assms(1) obtain m1 merged where m1: "setAll lc (existingAccounts prior) [] = Some m1"
    and mg: "setAll lc (accounts index) m1 = Some merged"
    and eq: "ix = mkIndex stamp (map snd merged)"
    by (rule mergedIndex_Some)
  have "snd ` set merged \<subseteq> snd ` set m1 \<union> set (accounts index)"
    by (rule setAll_values [OF mg])
  moreover have "snd ` set m1 \<subseteq> set (existingAccounts prior)"
    using setAll_values [OF m1] by simp
  moreover have "e \<in> snd ` set merged"
    using assms(2) by (simp add: eq mkIndex_def)
  ultimately show ?thesis by blast
qed

text \<open>
  C10. When the previous index holds the array \<open>A\<close> under \<open>accounts\<close>, the entries
  merged are exactly those of \<open>A\<close> that are objects with a string \<open>email\<close> and a
  string \<open>file\<close>; the write succeeds all the same, and no other element of \<open>A\<close>
  is in the index written, neither in memory nor in the file.
\<close>
theorem malformed_prior_entries_dropped:
  assumes A: "getProp parsed (lit ''accounts'') = Some (JArr A)"
      and B: "\<forall>b \<in> set (accounts index). wellFormed b"
  shows "existingAccounts (Content parsed) = filter wellFormed A \<and>
         (\<exists>ix. writeRotationIndex lc stamp (Content parsed) index = Some (Content (indexJson ix)) \<and>
            (\<forall>x \<in> set A. \<not> wellFormed x \<longrightarrow>
               x \<notin> set (accounts ix) \<and> x \<notin> set (accountsOf (Content (indexJson ix)))))"
proof -
  obtain ix where ix: "mergedIndex lc stamp (Content parsed) index = Some ix"
    using mergedIndex_total [OF B] by blast
  have wf: "wellFormed e" if "e \<in> set (accounts ix)" for e
    using merged_entries [OF ix that] B wellFormed_existing by blast
  have "wellFormed e" if "e \<in> set (accountsOf (Content (indexJson ix)))" for e
    using that wf by (auto simp: accountsOf_indexJson wellFormed_reread)
  with wf have "\<forall>x \<in> set A. \<not> wellFormed x \<longrightarrow>
      x \<notin> set (accounts ix) \<and> x \<notin> set (accountsOf (Content (indexJson ix)))"
    by blast
  moreover have "writeRotationIndex lc stamp (Content parsed) index = Some (Content (indexJson ix))"
    by (simp add: writeRotationIndex_def ix)
  ultimately show ?thesis
    using existingAccounts_array [OF A] by blast
qed

text \<open>
  C5, as amended. In every index built by \<open>buildRotationIndex\<close> or written by
  \<open>writeRotationIndex\<close>, \<open>total\<close> is the length of \<open>accounts\<close> and each of the
  four counts is the number of entries with that status, in the index in
  memory and in the file written. The four counts sum to
  \<open>total\<close> in every index built; in an index written they do so when every entry
  kept from the previous index and every fresh entry has one of the four
  statuses.
\<close>
theorem index_counts:
  "(buildRotationIndex rt dir = Some built \<longrightarrow>
      countsMatch built \<and>
      active built + expired built + disabled built + invalid built = total built) \<and>
   (writeRotationIndex lc stamp prior index = Some written \<longrightarrow>
      (\<exists>ix. written = Content (indexJson ix) \<and> countsMatch ix \<and> countsMatchFile written \<and>
         ((\<forall>a \<in> set (existingAccounts prior) \<union> set (accounts index). validStatus a) \<longrightarrow>
            active ix + expired ix + disabled ix + invalid ix = total ix)))"
proof (intro conjI impI)
  assume "buildRotationIndex rt dir = Some built"
  then obtain accs where b: "built = mkIndex (toISOString rt) (map (classify rt) accs)"
    by (auto simp: buildRotationIndex_def split: option.splits)
  show "countsMatch built"
    by (simp add: b countsMatch_mkIndex)
  have "\<forall>a \<in> set (map (classify rt) accs). validStatus a"
    by (simp add: validStatus_classify)
  from partition_by_status [OF this]
  show "active built + expired built + disabled built + invalid built = total built"
    by (simp add: b mkIndex_def)
next
  assume "writeRotationIndex lc stamp prior index = Some written"
  then obtain ix where ix: "mergedIndex lc stamp prior index = Some ix"
    and w: "written = Content (indexJson ix)"
    by (auto simp: writeRotationIndex_def)
  from ix obtain m1 merged where "setAll lc (existingAccounts prior) [] = Some m1"
    and "setAll lc (accounts index) m1 = Some merged"
    and eq: "ix = mkIndex stamp (map snd merged)"
    by (rule mergedIndex_Some)
  have cm: "countsMatch ix"
    by (simp add: eq countsMatch_mkIndex)
  have "active ix + expired ix + disabled ix + invalid ix = total ix"
    if v: "\<forall>a \<in> set (existingAccounts prior) \<union> set (accounts index). validStatus a"
  proof -
    have "\<forall>a \<in> set (accounts ix). validStatus a"
      using merged_entries [OF ix] v by blast
    from partition_by_status [OF this] cm show ?thesis
      by (simp add: countsMatch_def)
  qed
  with w cm have "written = Content (indexJson ix) \<and> countsMatch ix \<and>
      ((\<forall>a \<in> set (existingAccounts prior) \<union> set (accounts index). validStatus a) \<longrightarrow>
         active ix + expired ix + disabled ix + invalid ix = total ix)"
    by blast
  moreover have "countsMatchFile written"
    unfolding w by (rule countsMatchFile_indexJson [OF cm])
  ultimately show "\<exists>ix. written = Content (indexJson ix) \<and> countsMatch ix \<and> countsMatchFile written \<and>
         ((\<forall>a \<in> set (existingAccounts prior) \<union> set (accounts index). validStatus a) \<longrightarrow>
            active ix + expired ix + disabled ix + invalid ix = total ix)"
    by blast
qed

text \<open>
  C4, as amended. \<open>classify\<close> returns an entry with one of the four statuses for
  every file. With \<open>Date.parse("")\<close> being NaN: the status is \<open>disabled\<close> when the
  content has \<open>disabled === true\<close>; \<open>expired\<close> when it has not and \<open>expired\<close> is
  a string that parses to a time before the clock reading; \<open>invalid\<close> when the
  file is absent, unreadable, not JSON, or is the JSON value \<open>null\<close>; and
  \<open>active\<close> otherwise.
\<close>
theorem classify_status:
  assumes nan: "Date_parse rt [] = None"
  shows "validStatus (classify rt p) \<and>
     (disk rt p = Content data \<and> data \<noteq> JNull \<and> getProp data (lit ''disabled'') = Some (JBool True) \<longrightarrow>
        getProp (classify rt p) (lit ''status'') = Some (JStr (lit ''disabled''))) \<and>
     (disk rt p = Content data \<and> data \<noteq> JNull \<and> getProp data (lit ''disabled'') \<noteq> Some (JBool True) \<and>
      getProp data (lit ''expired'') = Some (JStr x) \<and> Date_parse rt x = Some t \<and> t < Date_now rt \<longrightarrow>
        getProp (classify rt p) (lit ''status'') = Some (JStr (lit ''expired''))) \<and>
     (disk rt p = Absent \<or> disk rt p = Unparsable \<or> disk rt p = Content JNull \<longrightarrow>
        getProp (classify rt p) (lit ''status'') = Some (JStr (lit ''invalid''))) \<and>
     (disk rt p = Content data \<and> data \<noteq> JNull \<and> getProp data (lit ''disabled'') \<noteq> Some (JBool True) \<and>
      \<not> (\<exists>y u. getProp data (lit ''expired'') = Some (JStr y) \<and> Date_parse rt y = Some u \<and> u < Date_now rt) \<longrightarrow>
        getProp (classify rt p) (lit ''status'') = Some (JStr (lit ''active'')))"
proof (intro conjI impI)
  show "validStatus (classify rt p)"
    by (rule validStatus_classify)
next
  assume "disk rt p = Content data \<and> data \<noteq> JNull \<and> getProp data (lit ''disabled'') = Some (JBool True)"
  then show "getProp (classify rt p) (lit ''status'') = Some (JStr (lit ''disabled''))"
    by (cases data) (simp_all add: classify_def getProp_mkEntry_status)
next
  assume a: "disk rt p = Content data \<and> data \<noteq> JNull \<and> getProp data (lit ''disabled'') \<noteq> Some (JBool True) \<and>
      getProp data (lit ''expired'') = Some (JStr x) \<and> Date_parse rt x = Some t \<and> t < Date_now rt"
  with nan have "x \<noteq> []" by auto
  with a show "getProp (classify rt p) (lit ''status'') = Some (JStr (lit ''expired''))"
    by (cases data) (simp_all add: classify_def getProp_mkEntry_status)
next
  assume "disk rt p = Absent \<or> disk rt p = Unparsable \<or> disk rt p = Content JNull"
  then show "getProp (classify rt p) (lit ''status'') = Some (JStr (lit ''invalid''))"
    by (auto simp: classify_def getProp_mkEntry_status)
next
  assume a: "disk rt p = Content data \<and> data \<noteq> JNull \<and> getProp data (lit ''disabled'') \<noteq> Some (JBool True) \<and>
      \<not> (\<exists>y u. getProp data (lit ''expired'') = Some (JStr y) \<and> Date_parse rt y = Some u \<and> u < Date_now rt)"
  then show "getProp (classify rt p) (lit ''status'') = Some (JStr (lit ''active''))"
    by (cases data)
      (auto simp: classify_def Let_def getProp_mkEntry_status split: option.splits json.splits)
qed

lemma update_append_new: "k \<notin> fst ` set m \<Longrightarrow> AList.update k v m = m @ [(k, v)]"
  by (induction m) auto

lemma setAll_replay:
  "distinct (map fst r) \<Longrightarrow> keysMatch lc r \<Longrightarrow> fst ` set m \<inter> fst ` set r = {} \<Longrightarrow>
     setAll lc (map snd r) m = Some (m @ r)"
proof (induction r arbitrary: m)
  case Nil
  then show ?case by simp
next
  case (Cons q r)
  obtain k v where q: "q = (k, v)" by (cases q)
  have kv: "accountKey lc v = Some k"
    using Cons.prems(2) by (simp add: keysMatch_def q)
  have new: "k \<notin> fst ` set m"
    using Cons.prems(3) by (auto simp: q)
  have d: "distinct (map fst r)" using Cons.prems(1) by simp
  have km: "keysMatch lc r" using Cons.prems(2) by (simp add: keysMatch_def)
  have dj: "fst ` set (m @ [(k, v)]) \<inter> fst ` set r = {}"
    using Cons.prems(1,3) by (auto simp: q)
  have "setAll lc (map snd r) (m @ [(k, v)]) = Some ((m @ [(k, v)]) @ r)"
    by (rule Cons.IH [OF d km dj])
  then show ?case
    by (simp add: q kv update_append_new [OF new])
qed

lemma setAll_keys_same:
  "setAll lc accs m = Some r \<Longrightarrow> \<forall>a \<in> set accs. the (accountKey lc a) \<in> fst ` set m \<Longrightarrow>
     map fst r = map fst m"
proof (induction accs arbitrary: m)
  case Nil
  then show ?case by simp
next
  case (Cons a accs)
  then obtain k where k: "accountKey lc a = Some k" and r: "setAll lc accs (AList.update k a m) = Some r"
    by (auto split: option.splits)
  have in_m: "k \<in> fst ` set m"
    using Cons.prems(2) k by simp
  have keys: "map fst (AList.update k a m) = map fst m"
    using in_m by (simp add: update_keys)
  have "map fst r = map fst (AList.update k a m)"
  proof (rule Cons.IH [OF r])
    show "\<forall>b \<in> set accs. the (accountKey lc b) \<in> fst ` set (AList.update k a m)"
      using Cons.prems(2) by (simp add: dom_update)
  qed
  with keys show ?case by simp
qed

lemma alist_eqI:
  "map fst xs = map fst ys \<Longrightarrow> distinct (map fst xs) \<Longrightarrow> map_of xs = map_of ys \<Longrightarrow> xs = ys"
proof (induction xs arbitrary: ys)
  case Nil
  then show ?case by simp
next
  case (Cons q xs)
  then obtain q' ys' where ys: "ys = q' # ys'" by (cases ys) auto
  obtain k v where q: "q = (k, v)" by (cases q)
  obtain w where q': "q' = (k, w)"
    using Cons.prems(1) by (cases q') (simp add: ys q)
  have vw: "v = w"
    using Cons.prems(3) by (simp add: ys q q' fun_eq_iff) (metis option.inject)
  have "k \<notin> set (map fst xs)"
    using Cons.prems(2) by (simp add: q)
  moreover have "map fst xs = map fst ys'"
    using Cons.prems(1) by (simp add: ys)
  ultimately have k_xs: "k \<notin> fst ` set xs" and k_ys: "k \<notin> fst ` set ys'"
    by (simp_all del: set_map add: set_map [symmetric])
  have "map_of xs j = map_of ys' j" for j
  proof (cases "j = k")
    case True
    have "map_of xs k = None" and "map_of ys' k = None"
      using k_xs k_ys by (simp_all add: map_of_eq_None_iff)
    with True show ?thesis by simp
  next
    case False
    then show ?thesis
      using fun_cong [OF Cons.prems(3), of j] by (simp add: ys q q')
  qed
  then have "map_of xs = map_of ys'" by (simp add: fun_eq_iff)
  then have "xs = ys'"
    using Cons.IH [of ys'] Cons.prems(1,2) by (simp add: ys)
  then show ?case by (simp add: ys q q' vw)
qed

lemma setAll_again:
  assumes mg: "setAll lc B m1 = Some merged" and d: "distinct (map fst m1)"
  shows "setAll lc B merged = Some merged"
proof -
  have wfB: "\<forall>b \<in> set B. wellFormed b"
    using setAll_wellFormed [OF mg] by blast
  obtain merged' where m': "setAll lc B merged = Some merged'"
    using setAll_total [OF wfB] by blast
  have "\<forall>a \<in> set B. the (accountKey lc a) \<in> fst ` set merged"
    using setAll_dom [OF mg] by simp
  then have keys: "map fst merged' = map fst merged"
    by (rule setAll_keys_same [OF m'])
  have "map_of merged' = map_of merged ++ map_of (rev (keyed lc B))"
    by (rule setAll_map_of [OF m'])
  also have "\<dots> = map_of merged"
    by (auto simp: setAll_map_of [OF mg] map_add_def fun_eq_iff split: option.splits)
  finally have "merged' = merged"
    using keys setAll_distinct [OF m'] setAll_distinct [OF mg d] alist_eqI by (metis)
  with m' show ?thesis by simp
qed

lemma classify_clock:
  assumes "disk rt2 = disk rt1" and "Date_parse rt2 = Date_parse rt1"
      and "\<forall>x t. Date_parse rt1 x = Some t \<longrightarrow> (t < Date_now rt2) = (t < Date_now rt1)"
  shows "classify rt2 p = classify rt1 p"
  using assms by (auto simp: classify_def Let_def split: disk_file.splits json.splits option.splits)

lemma update_reread:
  "AList.update k (reread a) (map (apsnd reread) m) = map (apsnd reread) (AList.update k a m)"
  by (induction m) auto

lemma setAll_reread:
  "setAll lc accs m = Some r \<Longrightarrow>
     setAll lc (map reread accs) (map (apsnd reread) m) = Some (map (apsnd reread) r)"
  by (induction accs arbitrary: m)
    (auto simp: accountKey_reread update_reread split: option.splits)

lemma snd_apsnd_reread: "map snd (map (apsnd reread) m) = map reread (map snd m)"
  by (induction m) auto

lemma mergedIndex_again:
  assumes ix1: "mergedIndex lc s1 prior index = Some ix1"
  shows "\<exists>ix2. mergedIndex lc s2 (Content (indexJson ix1)) index = Some ix2 \<and>
           indexJson ix2 = indexJson (ix1\<lparr>generated_at := s2\<rparr>)"
proof -
  from ix1 obtain m1 merged where m1: "setAll lc (existingAccounts prior) [] = Some m1"
    and mg: "setAll lc (accounts index) m1 = Some merged"
    and eq: "ix1 = mkIndex s1 (map snd merged)"
    by (rule mergedIndex_Some)
  define merged' where "merged' = map (apsnd reread) merged"
  have d1: "distinct (map fst m1)"
    using setAll_distinct [OF m1] by simp
  have d: "distinct (map fst merged)"
    by (rule setAll_distinct [OF mg d1])
  have km: "keysMatch lc merged"
    using setAll_keysMatch [OF mg] setAll_keysMatch [OF m1] by (simp add: keysMatch_def)
  have d': "distinct (map fst merged')"
    using d by (simp add: merged'_def comp_def)
  have km': "keysMatch lc merged'"
    using km by (auto simp: keysMatch_def merged'_def accountKey_reread)
  have vals: "map snd merged' = map reread (map snd merged)"
    by (simp add: merged'_def snd_apsnd_reread)
  have "\<forall>e \<in> set (map snd merged'). wellFormed e"
    using km' by (auto simp: keysMatch_def wellFormed_accountKey [of _ lc])
  then have ex: "existingAccounts (Content (indexJson ix1)) = map snd merged'"
    unfolding vals by (simp add: existingAccounts_indexJson eq mkIndex_def del: set_map)
  have rp: "setAll lc (map snd merged') [] = Some merged'"
    using setAll_replay [OF d' km', of "[]"] by simp
  have wfB: "\<forall>b \<in> set (accounts index). wellFormed b"
    using setAll_wellFormed [OF mg] by blast
  obtain merged2 where m2: "setAll lc (accounts index) merged' = Some merged2"
    using setAll_total [OF wfB] by blast
  have idem: "map (apsnd reread) merged' = merged'"
    by (simp add: merged'_def reread_idem comp_def apsnd_def map_prod_def split_def)
  have "setAll lc (accounts index) merged = Some merged"
    by (rule setAll_again [OF mg d1])
  from setAll_reread [OF this]
  have "setAll lc (map reread (accounts index)) merged' = Some merged'"
    by (simp add: merged'_def)
  moreover from setAll_reread [OF m2]
  have "setAll lc (map reread (accounts index)) merged' = Some (map (apsnd reread) merged2)"
    by (simp add: idem)
  ultimately have "map (apsnd reread) merged2 = merged'"
    by simp
  then have "map snd (map (apsnd reread) merged2) = map snd merged'"
    by simp
  then have same': "map reread (map snd merged2) = map reread (map snd merged)"
    by (simp only: snd_apsnd_reread vals)
  define X2 where "X2 = map snd merged2"
  define X where "X = map snd merged"
  have same: "map reread X2 = map reread X"
    using same' by (simp only: X2_def X_def)
  have len: "length X2 = length X"
    using map_eq_imp_length_eq [OF same] .
  have cnt: "length (filter (hasStatus s) X2) = length (filter (hasStatus s) X)" for s
    using count_reread [of s X2] count_reread [of s X] by (simp only: same)
  have "mergedIndex lc s2 (Content (indexJson ix1)) index = Some (mkIndex s2 X2)"
    unfolding mergedIndex_def ex X2_def by (simp add: rp m2)
  moreover have "indexJson (mkIndex s2 X2) = indexJson ((mkIndex s1 X)\<lparr>generated_at := s2\<rparr>)"
    by (simp add: indexJson_def mkIndex_def same len cnt)
  ultimately show ?thesis
    unfolding eq X_def by blast
qed

lemma mergedIndex_accounts:
  "accounts index = accounts index' \<Longrightarrow> mergedIndex lc s q index = mergedIndex lc s q index'"
  by (simp add: mergedIndex_def cong: option.case_cong)

lemma accounts_mkIndex: "accounts (mkIndex s accs) = accs"
  by (simp add: mkIndex_def)

text \<open>
  C6, as amended. When two runs of the rotate-index command see the same
  listing of the directory and classify each listed artifact alike, the second
  run, reading the index the first one wrote, writes the same index with a new
  \<open>generated_at\<close>: the \<open>accounts\<close> arrays are equal.
\<close>
theorem rotation_index_idempotent:
  assumes l1: "readdirSync rt1 dir = Some entries"
      and l2: "readdirSync rt2 dir = Some entries"
      and same: "\<forall>f \<in> set (artifactFiles dir entries). classify rt2 f = classify rt1 f"
  shows "\<exists>ix1. runRotateIndexCommand lc rt1 dir prior = Some (Content (indexJson ix1)) \<and>
           runRotateIndexCommand lc rt2 dir (Content (indexJson ix1)) =
             Some (Content (indexJson (ix1\<lparr>generated_at := toISOString rt2\<rparr>))) \<and>
           accountsOf (Content (indexJson (ix1\<lparr>generated_at := toISOString rt2\<rparr>))) =
             accountsOf (Content (indexJson ix1))"
proof -
  let ?B = "map (classify rt1) (artifactFiles dir entries)"
  have b1: "buildRotationIndex rt1 dir = Some (mkIndex (toISOString rt1) ?B)"
    by (simp add: buildRotationIndex_def l1)
  have eq2: "map (classify rt2) (artifactFiles dir entries) = ?B"
    using same by (intro map_ext) blast
  have b2: "buildRotationIndex rt2 dir = Some (mkIndex (toISOString rt2) ?B)"
    by (simp add: buildRotationIndex_def l2 eq2)
  have "\<forall>b \<in> set (accounts (mkIndex (toISOString rt1) ?B)). wellFormed b"
    by (simp add: mkIndex_def wellFormed_classify)
  then obtain ix1 where
    ix1: "mergedIndex lc (toISOString rt1) prior (mkIndex (toISOString rt1) ?B) = Some ix1"
    using mergedIndex_total by blast
  have acc: "mergedIndex lc s q (mkIndex t ?B) = mergedIndex lc s q (mkIndex (toISOString rt1) ?B)"
    for s t q
    by (rule mergedIndex_accounts) (simp add: accounts_mkIndex)
  have r1: "runRotateIndexCommand lc rt1 dir prior = Some (Content (indexJson ix1))"
    by (simp add: runRotateIndexCommand_def b1 writeRotationIndex_def ix1)
  obtain ix2 where "mergedIndex lc (toISOString rt2) (Content (indexJson ix1))
        (mkIndex (toISOString rt1) ?B) = Some ix2"
    and "indexJson ix2 = indexJson (ix1\<lparr>generated_at := toISOString rt2\<rparr>)"
    using mergedIndex_again [OF ix1] by blast
  then have "map_option indexJson (mergedIndex lc (toISOString rt2) (Content (indexJson ix1))
        (mkIndex (toISOString rt2) ?B)) =
      Some (indexJson (ix1\<lparr>generated_at := toISOString rt2\<rparr>))"
    by (subst acc [of _ _ "toISOString rt2"]) simp
  then have r2: "runRotateIndexCommand lc rt2 dir (Content (indexJson ix1)) =
      Some (Content (indexJson (ix1\<lparr>generated_at := toISOString rt2\<rparr>)))"
    by (auto simp: runRotateIndexCommand_def b2 writeRotationIndex_def)
  from r1 r2 show ?thesis
    by (auto simp: accountsOf_indexJson)
qed

section \<open>The rotation index at the example inputs\<close>

lemma example_files:
  "artifactFiles (lit ''/auth'') [\<lparr>name = lit ''codex-a.json'', isFile = True\<rparr>,
                     \<lparr>name = lit ''codex-n.json'', isFile = True\<rparr>,
                     \<lparr>name = lit ''notes.txt'', isFile = True\<rparr>] =
   [lit ''/auth/codex-a.json'', lit ''/auth/codex-n.json'']"
  by (simp add: artifactFiles_def startsWith_def endsWith_def path_join_def lit_def)

lemma example_classify_a:
  "classify (exampleRuntime now stamp) (lit ''/auth/codex-a.json'') =
     mkEntry (lit ''a@x.com'') (lit ''/auth/codex-a.json'') (Some (lit ''2026-01-01T00:00:00Z''))
       (if 1767225600000 < now then lit ''expired'' else lit ''active'')"
  by (simp add: classify_def exampleRuntime_def)

lemma example_basename: "basename (lit ''/auth/codex-n.json'') = lit ''codex-n.json''"
  by (simp add: basename_def lit_def)

lemma example_classify_n:
  "classify (exampleRuntime now stamp) (lit ''/auth/codex-n.json'') =
     mkEntry (lit ''codex-n.json'') (lit ''/auth/codex-n.json'') None (lit ''invalid'')"
  by (simp add: classify_def exampleRuntime_def example_basename)

lemma example_build:
  "buildRotationIndex (exampleRuntime now stamp) (lit ''/auth'') =
     Some (mkIndex stamp
       [mkEntry (lit ''a@x.com'') (lit ''/auth/codex-a.json'') (Some (lit ''2026-01-01T00:00:00Z''))
          (if 1767225600000 < now then lit ''expired'' else lit ''active''),
        mkEntry (lit ''codex-n.json'') (lit ''/auth/codex-n.json'') None (lit ''invalid'')])"
proof -
  have "readdirSync (exampleRuntime now stamp) (lit ''/auth'') =
      Some [\<lparr>name = lit ''codex-a.json'', isFile = True\<rparr>,
            \<lparr>name = lit ''codex-n.json'', isFile = True\<rparr>,
            \<lparr>name = lit ''notes.txt'', isFile = True\<rparr>]"
    and "toISOString (exampleRuntime now stamp) = stamp"
    by (simp_all add: exampleRuntime_def)
  then show ?thesis
    by (simp add: buildRotationIndex_def example_files example_classify_a example_classify_n)
qed

lemma example_keys:
  "accountKey asciiLowerCase (mkEntry (lit ''a@x.com'') (lit ''/auth/codex-a.json'') x s) =
     Some (lit ''a@x.com|codex-a.json'')"
  "accountKey asciiLowerCase (mkEntry (lit ''codex-n.json'') (lit ''/auth/codex-n.json'') x s) =
     Some (lit ''codex-n.json|codex-n.json'')"
  "accountKey asciiLowerCase (mkEntry (lit ''A@x.com'') (lit ''/old/CODEX-A.json'') x s) =
     Some (lit ''a@x.com|codex-a.json'')"
  by (simp_all add: accountKey_mkEntry asciiLowerCase_def asciiLower_def basename_def lit_def)

lemma example_key_c:
  "accountKey asciiLowerCase
     (JObj [(lit ''email'', JStr (lit ''c@x.com'')), (lit ''file'', JStr (lit ''/auth/codex-c.json'')),
            (lit ''status'', JStr (lit ''active'')), (lit ''quota'', q)]) =
     Some (lit ''c@x.com|codex-c.json'')"
  by (simp add: accountKey_def asciiLowerCase_def asciiLower_def basename_def lit_def)

lemma example_merge:
  "mergedIndex asciiLowerCase stamp Absent
     (mkIndex t [mkEntry (lit ''a@x.com'') (lit ''/auth/codex-a.json'') x s,
       mkEntry (lit ''codex-n.json'') (lit ''/auth/codex-n.json'') None (lit ''invalid'')]) =
   Some (mkIndex stamp [mkEntry (lit ''a@x.com'') (lit ''/auth/codex-a.json'') x s,
       mkEntry (lit ''codex-n.json'') (lit ''/auth/codex-n.json'') None (lit ''invalid'')])"
  by (simp add: mergedIndex_def existingAccounts_def accounts_mkIndex example_keys)

lemma example_remerge:
  "mergedIndex asciiLowerCase stamp
     (Content (indexJson (mkIndex t0 [mkEntry (lit ''a@x.com'') (lit ''/auth/codex-a.json'') x0 s0,
       mkEntry (lit ''codex-n.json'') (lit ''/auth/codex-n.json'') None (lit ''invalid'')])))
     (mkIndex t [mkEntry (lit ''a@x.com'') (lit ''/auth/codex-a.json'') x s,
       mkEntry (lit ''codex-n.json'') (lit ''/auth/codex-n.json'') None (lit ''invalid'')]) =
   Some (mkIndex stamp [mkEntry (lit ''a@x.com'') (lit ''/auth/codex-a.json'') x s,
       mkEntry (lit ''codex-n.json'') (lit ''/auth/codex-n.json'') None (lit ''invalid'')])"
  by (simp add: mergedIndex_def existingAccounts_indexJson accounts_mkIndex example_keys
      reread_mkEntry wellFormed_mkEntry)

lemma ex0:
  "existingAccounts prior0 =
     [mkEntry (lit ''A@x.com'') (lit ''/old/CODEX-A.json'') None (lit ''disabled''),
      JObj [(lit ''email'', JStr (lit ''c@x.com'')), (lit ''file'', JStr (lit ''/auth/codex-c.json'')),
            (lit ''status'', JStr (lit ''active'')), (lit ''quota'', JNum PlusInfinity)]]"
  by (simp add: existingAccounts_def prior0_def wellFormed_def mkEntry_def)


text \<open>
  C6 as stated fails: same listing, same files, and a clock that passes the
  \<open>expired\<close> time of an artifact between the two runs. The first run writes the
  artifact as \<open>active\<close>, the second as \<open>expired\<close>.
\<close>
theorem rotation_index_clock_counterexample:
  "readdirSync (exampleRuntime 1768000000000 (lit ''t2'')) =
     readdirSync (exampleRuntime 1767000000000 (lit ''t1'')) \<and>
   disk (exampleRuntime 1768000000000 (lit ''t2'')) = disk (exampleRuntime 1767000000000 (lit ''t1'')) \<and>
   map_option accountsOf
     (runRotateIndexCommand asciiLowerCase (exampleRuntime 1767000000000 (lit ''t1'')) (lit ''/auth'') Absent) =
     Some [mkEntry (lit ''a@x.com'') (lit ''/auth/codex-a.json'') (Some (lit ''2026-01-01T00:00:00Z''))
             (lit ''active''),
           mkEntry (lit ''codex-n.json'') (lit ''/auth/codex-n.json'') None (lit ''invalid'')] \<and>
   map_option accountsOf
     (Option.bind
        (runRotateIndexCommand asciiLowerCase (exampleRuntime 1767000000000 (lit ''t1'')) (lit ''/auth'') Absent)
        (runRotateIndexCommand asciiLowerCase (exampleRuntime 1768000000000 (lit ''t2'')) (lit ''/auth''))) =
     Some [mkEntry (lit ''a@x.com'') (lit ''/auth/codex-a.json'') (Some (lit ''2026-01-01T00:00:00Z''))
             (lit ''expired''),
           mkEntry (lit ''codex-n.json'') (lit ''/auth/codex-n.json'') None (lit ''invalid'')] \<and>
   mkEntry (lit ''a@x.com'') (lit ''/auth/codex-a.json'') (Some (lit ''2026-01-01T00:00:00Z'')) (lit ''active'') \<noteq>
   mkEntry (lit ''a@x.com'') (lit ''/auth/codex-a.json'') (Some (lit ''2026-01-01T00:00:00Z'')) (lit ''expired'')"
proof -
  have s: "toISOString (exampleRuntime n st) = st" for n st
    by (simp add: exampleRuntime_def)
  have r1: "runRotateIndexCommand asciiLowerCase (exampleRuntime 1767000000000 (lit ''t1'')) (lit ''/auth'') Absent =
      Some (Content (indexJson (mkIndex (lit ''t1'')
        [mkEntry (lit ''a@x.com'') (lit ''/auth/codex-a.json'') (Some (lit ''2026-01-01T00:00:00Z''))
           (lit ''active''),
         mkEntry (lit ''codex-n.json'') (lit ''/auth/codex-n.json'') None (lit ''invalid'')])))"
    by (simp add: runRotateIndexCommand_def example_build writeRotationIndex_def example_merge s)
  have r2: "runRotateIndexCommand asciiLowerCase (exampleRuntime 1768000000000 (lit ''t2'')) (lit ''/auth'')
      (Content (indexJson (mkIndex (lit ''t1'')
        [mkEntry (lit ''a@x.com'') (lit ''/auth/codex-a.json'') (Some (lit ''2026-01-01T00:00:00Z''))
           (lit ''active''),
         mkEntry (lit ''codex-n.json'') (lit ''/auth/codex-n.json'') None (lit ''invalid'')]))) =
      Some (Content (indexJson (mkIndex (lit ''t2'')
        [mkEntry (lit ''a@x.com'') (lit ''/auth/codex-a.json'') (Some (lit ''2026-01-01T00:00:00Z''))
           (lit ''expired''),
         mkEntry (lit ''codex-n.json'') (lit ''/auth/codex-n.json'') None (lit ''invalid'')])))"
    by (simp add: runRotateIndexCommand_def example_build writeRotationIndex_def example_remerge s)
  have d: "readdirSync (exampleRuntime 1768000000000 (lit ''t2'')) =
      readdirSync (exampleRuntime 1767000000000 (lit ''t1''))"
    "disk (exampleRuntime 1768000000000 (lit ''t2'')) = disk (exampleRuntime 1767000000000 (lit ''t1''))"
    by (simp_all add: exampleRuntime_def)
  have ne: "mkEntry (lit ''a@x.com'') (lit ''/auth/codex-a.json'') (Some (lit ''2026-01-01T00:00:00Z''))
       (lit ''active'') \<noteq>
     mkEntry (lit ''a@x.com'') (lit ''/auth/codex-a.json'') (Some (lit ''2026-01-01T00:00:00Z''))
       (lit ''expired'')"
    by (simp add: mkEntry_def)
  show ?thesis
    using d ne by (simp add: r1 r2 accountsOf_indexJson accounts_mkIndex reread_mkEntry)
qed

text \<open>
  C4 as stated fails: a file holding the JSON text \<open>null\<close> is read and parsed,
  and is classified \<open>invalid\<close>, not \<open>active\<close>.
\<close>
theorem classify_null_counterexample:
  "disk (exampleRuntime 0 (lit ''t'')) (lit ''/auth/codex-n.json'') = Content JNull \<and>
   getProp (classify (exampleRuntime 0 (lit ''t'')) (lit ''/auth/codex-n.json'')) (lit ''status'') =
     Some (JStr (lit ''invalid'')) \<and>
   \<not> hasStatus (lit ''active'') (classify (exampleRuntime 0 (lit ''t'')) (lit ''/auth/codex-n.json''))"
  by (simp add: example_classify_n getProp_mkEntry_status hasStatus_mkEntry)
    (simp add: exampleRuntime_def)

text \<open>C4 at an artifact past its \<open>expired\<close> time and at an absent file.\<close>
theorem classify_status_witness:
  "Date_parse (exampleRuntime 1768000000000 (lit ''t'')) [] = None \<and>
   disk (exampleRuntime 1768000000000 (lit ''t'')) (lit ''/auth/codex-a.json'') =
     Content (JObj [(lit ''email'', JStr (lit ''a@x.com'')),
                    (lit ''expired'', JStr (lit ''2026-01-01T00:00:00Z'')),
                    (lit ''disabled'', JBool False)]) \<and>
   Date_parse (exampleRuntime 1768000000000 (lit ''t'')) (lit ''2026-01-01T00:00:00Z'') = Some 1767225600000 \<and>
   1767225600000 < Date_now (exampleRuntime 1768000000000 (lit ''t'')) \<and>
   getProp (classify (exampleRuntime 1768000000000 (lit ''t'')) (lit ''/auth/codex-a.json'')) (lit ''status'') =
     Some (JStr (lit ''expired'')) \<and>
   disk (exampleRuntime 1768000000000 (lit ''t'')) (lit ''/auth/codex-z.json'') = Absent \<and>
   getProp (classify (exampleRuntime 1768000000000 (lit ''t'')) (lit ''/auth/codex-z.json'')) (lit ''status'') =
     Some (JStr (lit ''invalid''))"
proof -
  let ?rt = "exampleRuntime 1768000000000 (lit ''t'')"
  let ?data = "JObj [(lit ''email'', JStr (lit ''a@x.com'')),
                    (lit ''expired'', JStr (lit ''2026-01-01T00:00:00Z'')),
                    (lit ''disabled'', JBool False)]"
  have nan: "Date_parse ?rt [] = None"
    and d: "disk ?rt (lit ''/auth/codex-a.json'') = Content ?data"
    and dp: "Date_parse ?rt (lit ''2026-01-01T00:00:00Z'') = Some 1767225600000"
    and now: "1767225600000 < Date_now ?rt"
    and z: "disk ?rt (lit ''/auth/codex-z.json'') = Absent"
    by (simp_all add: exampleRuntime_def)
  have pre: "disk ?rt (lit ''/auth/codex-a.json'') = Content ?data \<and> ?data \<noteq> JNull \<and>
      getProp ?data (lit ''disabled'') \<noteq> Some (JBool True) \<and>
      getProp ?data (lit ''expired'') = Some (JStr (lit ''2026-01-01T00:00:00Z'')) \<and>
      Date_parse ?rt (lit ''2026-01-01T00:00:00Z'') = Some 1767225600000 \<and>
      1767225600000 < Date_now ?rt"
    using d dp now by simp
  have e: "getProp (classify ?rt (lit ''/auth/codex-a.json'')) (lit ''status'') = Some (JStr (lit ''expired''))"
    using classify_status [OF nan, of "lit ''/auth/codex-a.json''" ?data "lit ''2026-01-01T00:00:00Z''" 1767225600000]
      pre by blast
  have i: "getProp (classify ?rt (lit ''/auth/codex-z.json'')) (lit ''status'') = Some (JStr (lit ''invalid''))"
    using classify_status [OF nan, of "lit ''/auth/codex-z.json''"] z by blast
  from nan d dp now e z i show ?thesis by blast
qed

text \<open>
  C5 as stated fails: a previous index with an entry that has no \<open>status\<close> is
  merged with an empty scan; the index written has \<open>total\<close> 1 and four counts of 0.
\<close>
theorem index_counts_counterexample:
  "writeRotationIndex asciiLowerCase (lit ''t'') priorNoStatus (mkIndex (lit ''t'') []) =
     Some (Content (JObj
       [(lit ''generated_at'', JStr (lit ''t'')),
        (lit ''total'', JNum (Finite 1)),
        (lit ''active'', JNum (Finite 0)),
        (lit ''expired'', JNum (Finite 0)),
        (lit ''disabled'', JNum (Finite 0)),
        (lit ''invalid'', JNum (Finite 0)),
        (lit ''accounts'',
           JArr [JObj [(lit ''email'', JStr (lit ''a@x.com'')),
                       (lit ''file'', JStr (lit ''/auth/codex-a.json''))]])]))"
proof -
  have ex: "existingAccounts priorNoStatus =
      [JObj [(lit ''email'', JStr (lit ''a@x.com'')), (lit ''file'', JStr (lit ''/auth/codex-a.json''))]]"
    by (simp add: existingAccounts_def priorNoStatus_def wellFormed_def)
  have k: "accountKey asciiLowerCase
        (JObj [(lit ''email'', JStr (lit ''a@x.com'')), (lit ''file'', JStr (lit ''/auth/codex-a.json''))]) =
      Some (lit ''a@x.com|codex-a.json'')"
    by (simp add: accountKey_def asciiLowerCase_def asciiLower_def basename_def lit_def)
  show ?thesis
    by (simp add: writeRotationIndex_def mergedIndex_def ex k accounts_mkIndex)
      (simp add: mkIndex_def indexJson_def hasStatus_def)
qed

text \<open>C5 at the example directory and at a first write of one active entry.\<close>
theorem index_counts_witness:
  "(\<exists>built. buildRotationIndex (exampleRuntime 0 (lit ''t1'')) (lit ''/auth'') = Some built \<and>
      countsMatch built \<and> total built = 2 \<and>
      active built + expired built + disabled built + invalid built = total built) \<and>
   list_all validStatus
     (existingAccounts Absent @
      accounts (mkIndex (lit ''t1'') [mkEntry (lit ''a@x.com'') (lit ''/auth/codex-a.json'') None (lit ''active'')])) \<and>
   (\<exists>ix. writeRotationIndex asciiLowerCase (lit ''t2'') Absent
            (mkIndex (lit ''t1'') [mkEntry (lit ''a@x.com'') (lit ''/auth/codex-a.json'') None (lit ''active'')]) =
            Some (Content (indexJson ix)) \<and>
      countsMatch ix \<and> countsMatchFile (Content (indexJson ix)) \<and> total ix = 1 \<and>
      active ix + expired ix + disabled ix + invalid ix = total ix)"
proof -
  let ?rt = "exampleRuntime 0 (lit ''t1'')"
  let ?e = "mkEntry (lit ''a@x.com'') (lit ''/auth/codex-a.json'') None (lit ''active'')"
  let ?index = "mkIndex (lit ''t1'') [?e]"
  obtain built where b: "buildRotationIndex ?rt (lit ''/auth'') = Some built"
    by (simp add: example_build)
  have tb: "total built = 2"
    using b by (auto simp: example_build mkIndex_def)
  have mi: "mergedIndex asciiLowerCase (lit ''t2'') Absent ?index = Some (mkIndex (lit ''t2'') [?e])"
    by (simp add: mergedIndex_def existingAccounts_def accounts_mkIndex example_keys)
  have w: "writeRotationIndex asciiLowerCase (lit ''t2'') Absent ?index =
      Some (Content (indexJson (mkIndex (lit ''t2'') [?e])))"
    by (simp add: writeRotationIndex_def mi)
  have v: "\<forall>a \<in> set (existingAccounts Absent) \<union> set (accounts ?index). validStatus a"
    by (simp add: existingAccounts_def accounts_mkIndex validStatus_def statuses_def hasStatus_mkEntry)
  from index_counts [of ?rt "lit ''/auth''" built asciiLowerCase "lit ''t2''" Absent ?index, THEN conjunct1] b
  have c1: "countsMatch built" "active built + expired built + disabled built + invalid built = total built"
    by simp_all
  from index_counts [of ?rt "lit ''/auth''" built asciiLowerCase "lit ''t2''" Absent ?index, THEN conjunct2] w v
  obtain ix where ix: "Content (indexJson (mkIndex (lit ''t2'') [?e])) = Content (indexJson ix)"
    and c2: "countsMatch ix" "active ix + expired ix + disabled ix + invalid ix = total ix"
    and c3: "countsMatchFile (Content (indexJson (mkIndex (lit ''t2'') [?e])))"
    by blast
  have t: "total ix = 1"
    using ix by (simp add: indexJson_def mkIndex_def)
  have "\<exists>ix. writeRotationIndex asciiLowerCase (lit ''t2'') Absent ?index = Some (Content (indexJson ix)) \<and>
      countsMatch ix \<and> countsMatchFile (Content (indexJson ix)) \<and> total ix = 1 \<and>
      active ix + expired ix + disabled ix + invalid ix = total ix"
    using w ix c2 c3 t by auto
  moreover have "list_all validStatus (existingAccounts Absent @ accounts ?index)"
    using v by (simp add: list_all_iff)
  ultimately show ?thesis
    using b tb c1 by blast
qed

text \<open>C10 at a previous index with one entry that has no \<open>file\<close>.\<close>
theorem malformed_prior_entries_dropped_witness:
  "getProp (JObj [(lit ''accounts'',
       JArr [JObj [(lit ''email'', JStr (lit ''a@x.com'')), (lit ''file'', JStr (lit ''/auth/codex-a.json''))],
             JObj [(lit ''email'', JStr (lit ''z@x.com''))]])]) (lit ''accounts'') =
     Some (JArr [JObj [(lit ''email'', JStr (lit ''a@x.com'')), (lit ''file'', JStr (lit ''/auth/codex-a.json''))],
             JObj [(lit ''email'', JStr (lit ''z@x.com''))]]) \<and>
   list_all wellFormed (accounts (mkIndex (lit ''t'') [])) \<and>
   \<not> wellFormed (JObj [(lit ''email'', JStr (lit ''z@x.com''))]) \<and>
   existingAccounts priorNoStatus =
     [JObj [(lit ''email'', JStr (lit ''a@x.com'')), (lit ''file'', JStr (lit ''/auth/codex-a.json''))]] \<and>
   (\<exists>ix. writeRotationIndex asciiLowerCase (lit ''t'') priorNoStatus (mkIndex (lit ''t'') []) =
            Some (Content (indexJson ix)) \<and>
      JObj [(lit ''email'', JStr (lit ''z@x.com''))] \<notin> set (accounts ix) \<and>
      JObj [(lit ''email'', JStr (lit ''z@x.com''))] \<notin> set (accountsOf (Content (indexJson ix))))"
proof -
  let ?a = "JObj [(lit ''email'', JStr (lit ''a@x.com'')), (lit ''file'', JStr (lit ''/auth/codex-a.json''))]"
  let ?z = "JObj [(lit ''email'', JStr (lit ''z@x.com''))]"
  let ?parsed = "JObj [(lit ''accounts'', JArr [?a, ?z])]"
  have A: "getProp ?parsed (lit ''accounts'') = Some (JArr [?a, ?z])" by simp
  have B: "\<forall>b \<in> set (accounts (mkIndex (lit ''t'') [])). wellFormed b"
    by (simp add: accounts_mkIndex)
  have nz: "\<not> wellFormed ?z" and wa: "wellFormed ?a"
    by (simp_all add: wellFormed_def)
  have p: "priorNoStatus = Content ?parsed"
    by (simp add: priorNoStatus_def)
  from malformed_prior_entries_dropped [OF A B, of asciiLowerCase "lit ''t''"]
  obtain ix where e: "existingAccounts (Content ?parsed) = filter wellFormed [?a, ?z]"
    and w: "writeRotationIndex asciiLowerCase (lit ''t'') (Content ?parsed) (mkIndex (lit ''t'') []) =
        Some (Content (indexJson ix))"
    and d: "\<forall>x \<in> set [?a, ?z]. \<not> wellFormed x \<longrightarrow>
        x \<notin> set (accounts ix) \<and> x \<notin> set (accountsOf (Content (indexJson ix)))"
    by blast
  have "?z \<notin> set (accounts ix)" "?z \<notin> set (accountsOf (Content (indexJson ix)))"
    using d nz by simp_all
  moreover have "existingAccounts priorNoStatus = [?a]"
    using e nz wa by (simp add: p)
  ultimately show ?thesis
    using A B nz w unfolding p list_all_iff by blast
qed

text \<open>C6 at two runs half a second apart, before the artifact expires.\<close>
theorem rotation_index_idempotent_witness:
  "readdirSync (exampleRuntime 1767000000000 (lit ''t1'')) (lit ''/auth'') =
     readdirSync (exampleRuntime 1767000000500 (lit ''t2'')) (lit ''/auth'') \<and>
   list_all (\<lambda>f. classify (exampleRuntime 1767000000500 (lit ''t2'')) f =
                 classify (exampleRuntime 1767000000000 (lit ''t1'')) f)
     [lit ''/auth/codex-a.json'', lit ''/auth/codex-n.json''] \<and>
   (\<exists>ix1. runRotateIndexCommand asciiLowerCase (exampleRuntime 1767000000000 (lit ''t1'')) (lit ''/auth'') prior0 =
            Some (Content (indexJson ix1)) \<and>
      runRotateIndexCommand asciiLowerCase (exampleRuntime 1767000000500 (lit ''t2'')) (lit ''/auth'')
          (Content (indexJson ix1)) =
        Some (Content (indexJson (ix1\<lparr>generated_at := lit ''t2''\<rparr>))) \<and>
      accountsOf (Content (indexJson (ix1\<lparr>generated_at := lit ''t2''\<rparr>))) =
        accountsOf (Content (indexJson ix1)) \<and>
      length (accountsOf (Content (indexJson ix1))) = 3)"
proof -
  let ?rt1 = "exampleRuntime 1767000000000 (lit ''t1'')"
  let ?rt2 = "exampleRuntime 1767000000500 (lit ''t2'')"
  let ?entries = "[\<lparr>name = lit ''codex-a.json'', isFile = True\<rparr>,
                     \<lparr>name = lit ''codex-n.json'', isFile = True\<rparr>,
                     \<lparr>name = lit ''notes.txt'', isFile = True\<rparr>]"
  let ?a = "mkEntry (lit ''a@x.com'') (lit ''/auth/codex-a.json'') (Some (lit ''2026-01-01T00:00:00Z''))
              (lit ''active'')"
  let ?n = "mkEntry (lit ''codex-n.json'') (lit ''/auth/codex-n.json'') None (lit ''invalid'')"
  let ?c = "JObj [(lit ''email'', JStr (lit ''c@x.com'')), (lit ''file'', JStr (lit ''/auth/codex-c.json'')),
                  (lit ''status'', JStr (lit ''active'')), (lit ''quota'', JNum PlusInfinity)]"
  have l1: "readdirSync ?rt1 (lit ''/auth'') = Some ?entries"
    and l2: "readdirSync ?rt2 (lit ''/auth'') = Some ?entries"
    and s2: "toISOString ?rt2 = lit ''t2''"
    by (simp_all add: exampleRuntime_def)
  have same: "\<forall>f \<in> set (artifactFiles (lit ''/auth'') ?entries). classify ?rt2 f = classify ?rt1 f"
    by (simp add: example_files example_classify_a example_classify_n)
  from rotation_index_idempotent [OF l1 l2 same, of asciiLowerCase prior0]
  obtain ix1 where r1: "runRotateIndexCommand asciiLowerCase ?rt1 (lit ''/auth'') prior0 =
        Some (Content (indexJson ix1))"
    and r2: "runRotateIndexCommand asciiLowerCase ?rt2 (lit ''/auth'') (Content (indexJson ix1)) =
        Some (Content (indexJson (ix1\<lparr>generated_at := lit ''t2''\<rparr>)))"
    and a: "accountsOf (Content (indexJson (ix1\<lparr>generated_at := lit ''t2''\<rparr>))) =
        accountsOf (Content (indexJson ix1))"
    unfolding s2 by blast
  have "mergedIndex asciiLowerCase (lit ''t1'') prior0 (mkIndex (lit ''t1'') [?a, ?n]) =
      Some (mkIndex (lit ''t1'') [?a, ?c, ?n])"
    by (simp add: mergedIndex_def ex0 accounts_mkIndex example_keys example_key_c)
  then have "runRotateIndexCommand asciiLowerCase ?rt1 (lit ''/auth'') prior0 =
      Some (Content (indexJson (mkIndex (lit ''t1'') [?a, ?c, ?n])))"
    by (simp add: runRotateIndexCommand_def example_build writeRotationIndex_def)
      (simp add: exampleRuntime_def)
  with r1 have "accountsOf (Content (indexJson ix1)) =
      accountsOf (Content (indexJson (mkIndex (lit ''t1'') [?a, ?c, ?n])))"
    by simp
  then have len: "length (accountsOf (Content (indexJson ix1))) = 3"
    by (simp add: accountsOf_indexJson accounts_mkIndex)
  have c: "list_all (\<lambda>f. classify ?rt2 f = classify ?rt1 f) [lit ''/auth/codex-a.json'', lit ''/auth/codex-n.json'']"
    using same by (simp add: example_files)
  from l1 l2 c r1 r2 a len show ?thesis by auto
qed

section \<open>Properties of challenge detection, the artifact verifier and the orchestrator\<close>

lemma str_includes_iff: "str_includes s t \<longleftrightarrow> (\<exists>ps ss. s = ps @ t @ ss)"
proof (induction s)
  case Nil
  then show ?case by auto
next
  case (Cons c s)
  have sw: "startsWith (c # s) t \<longleftrightarrow> (\<exists>ss. c # s = t @ ss)"
    unfolding startsWith_def
    by (metis append_eq_conv_conj append_take_drop_id)
  show ?case
  proof
    assume "str_includes (c # s) t"
    then consider "startsWith (c # s) t" | "str_includes s t" by auto
    then show "\<exists>ps ss. c # s = ps @ t @ ss"
    proof cases
      case 1
      then obtain ss where "c # s = t @ ss" using sw by blast
      then have "c # s = [] @ t @ ss" by simp
      then show ?thesis by blast
    next
      case 2
      then obtain ps ss where "s = ps @ t @ ss" using Cons.IH by blast
      then have "c # s = (c # ps) @ t @ ss" by simp
      then show ?thesis by blast
    qed
  next
    assume "\<exists>ps ss. c # s = ps @ t @ ss"
    then obtain ps ss where e: "c # s = ps @ t @ ss" by blast
    show "str_includes (c # s) t"
    proof (cases ps)
      case Nil
      with e have "\<exists>ss. c # s = t @ ss" by auto
      then have "startsWith (c # s) t" using sw by blast
      then show ?thesis by simp
    next
      case (Cons p ps')
      with e have "s = ps' @ t @ ss" by simp
      then show ?thesis using Cons.IH by auto
    qed
  qed
qed

lemma onCodexConsentPage_iff:
  "onCodexConsentPage pg \<longleftrightarrow> (\<exists>f \<in> set (frames pg). frameLooksLikeConsent f)"
  by (simp add: onCodexConsentPage_def list_ex_iff)

lemma str_includes_set: "str_includes s t \<Longrightarrow> set t \<subseteq> set s"
  by (auto simp: str_includes_iff)

lemma consentPattern_iff:
  "consentPattern text \<longleftrightarrow>
     (\<exists>p \<in> {[0x767B, 0x5F55, 0x5230] @ lit '' codex'', lit ''to codex''}.
        \<exists>ps ss. asciiLowerCase text = ps @ p @ ss)"
  by (simp add: consentPattern_def str_includes_iff)

text \<open>
  C9, as amended. On a page where \<open>onCodexConsentPage\<close> holds, \<open>detectChallenge\<close>
  returns false. On any other page it returns true exactly when a configured
  challenge selector is visible or the lower-cased page content contains a
  lower-cased configured text pattern that is not in the \<open>overlyBroad\<close> set. The
  consent page is one with a frame whose body text, cut to its first 12000
  code units (and empty when it cannot be read), contains one of the two
  phrases of the consent pattern, the letters A to Z counting as a to z.
\<close>
theorem detectChallenge_spec:
  "(onCodexConsentPage pg \<longrightarrow> detectChallenge lc pg cfg = False) \<and>
   (\<not> onCodexConsentPage pg \<longrightarrow>
      detectChallenge lc pg cfg =
        ((\<exists>selector \<in> set (challengeSelectors cfg). visible pg selector) \<or>
         (\<exists>t \<in> set (challengeTextPatterns cfg).
            lc t \<notin> set overlyBroad \<and>
            (\<exists>ps ss. lc (content pg) = ps @ lc t @ ss)))) \<and>
   (onCodexConsentPage pg \<longleftrightarrow>
      (\<exists>f \<in> set (frames pg).
         \<exists>p \<in> {[0x767B, 0x5F55, 0x5230] @ lit '' codex'', lit ''to codex''}.
           \<exists>ps ss. asciiLowerCase (take 12000 (case f of None \<Rightarrow> [] | Some bodyText \<Rightarrow> bodyText)) =
             ps @ p @ ss))"
proof (intro conjI impI)
  assume "onCodexConsentPage pg"
  then show "detectChallenge lc pg cfg = False"
    by (simp add: detectChallenge_def)
next
  assume "\<not> onCodexConsentPage pg"
  then show "detectChallenge lc pg cfg =
        ((\<exists>selector \<in> set (challengeSelectors cfg). visible pg selector) \<or>
         (\<exists>t \<in> set (challengeTextPatterns cfg).
            lc t \<notin> set overlyBroad \<and>
            (\<exists>ps ss. lc (content pg) = ps @ lc t @ ss)))"
    by (auto simp: detectChallenge_def Let_def list_ex_iff str_includes_iff)
next
  show "onCodexConsentPage pg \<longleftrightarrow>
      (\<exists>f \<in> set (frames pg).
         \<exists>p \<in> {[0x767B, 0x5F55, 0x5230] @ lit '' codex'', lit ''to codex''}.
           \<exists>ps ss. asciiLowerCase (take 12000 (case f of None \<Rightarrow> [] | Some bodyText \<Rightarrow> bodyText)) =
             ps @ p @ ss)"
    unfolding onCodexConsentPage_iff frameLooksLikeConsent_def consentPattern_iff ..
qed

lemma mkResult_fields:
  "email (mkResult w dp a st c m f) = AccountCredential.email a"
  "plan (mkResult w dp a st c m f) = (case AccountCredential.plan a of None \<Rightarrow> dp | Some p \<Rightarrow> p)"
  "status (mkResult w dp a st c m f) = st"
  "code (mkResult w dp a st c m f) = c"
  "message (mkResult w dp a st c m f) = m"
  "file (mkResult w dp a st c m f) = f"
  by (simp_all add: mkResult_def)

lemma reconcile_shape:
  "reconcile lc w outDir timeoutMs dp a fr ch st = Inr r \<Longrightarrow>
     \<exists>s c m f. r = mkResult w dp a s c m f \<and> s \<noteq> Skipped \<and> (s = Success \<longleftrightarrow> c = None)"
  by (auto simp: reconcile_def split: if_splits sum.splits option.splits)

lemma tryBlock_shape:
  assumes that: "tryBlock lc w flow outDir timeoutMs dp a = Inr r"
  shows "\<exists>s c m f. r = mkResult w dp a s c m f \<and> s \<noteq> Skipped \<and> (s = Success \<longleftrightarrow> c = None)"
proof (cases "gatherSignals lc w flow timeoutMs")
  case (Inl e)
  with that show ?thesis by (simp add: tryBlock_def)
next
  case (Inr sig)
  show ?thesis
  proof (cases sig)
    case None
    with Inr have "r = mkResult w dp a Failed (Some CPAMC_LINK_NOT_FOUND)
        (Some (lit ''Auth URL state not found.'')) None"
      using that by (simp add: tryBlock_def)
    then show ?thesis by blast
  next
    case (Some t)
    obtain fr ch st where t: "t = (fr, ch, st)" by (cases t)
    from Inr Some t that have "reconcile lc w outDir timeoutMs dp a fr ch st = Inr r"
      by (simp add: tryBlock_def)
    then show ?thesis by (rule reconcile_shape)
  qed
qed

lemma processAccount_shape:
  "\<exists>s c m f. processAccount lc w flow outDir timeoutMs dp a = mkResult w dp a s c m f \<and>
     s \<noteq> Skipped \<and> (s = Success \<longleftrightarrow> c = None)"
proof (cases "tryBlock lc w flow outDir timeoutMs dp a")
  case (Inl msg)
  then show ?thesis by (auto simp: processAccount_def)
next
  case (Inr r)
  with tryBlock_shape [OF Inr] show ?thesis by (auto simp: processAccount_def)
qed

lemma processAccount_email:
  "email (processAccount lc w flow outDir timeoutMs dp a) = AccountCredential.email a"
  using processAccount_shape [of lc w flow outDir timeoutMs dp a] by (auto simp: mkResult_fields)

lemma processAccount_status:
  "status (processAccount lc w flow outDir timeoutMs dp a) \<noteq> Skipped"
  using processAccount_shape [of lc w flow outDir timeoutMs dp a] by (auto simp: mkResult_fields)

lemma processAccount_caught:
  "tryBlock lc w flow outDir timeoutMs dp a = Inl msg \<Longrightarrow>
     processAccount lc w flow outDir timeoutMs dp a =
       mkResult w dp a Failed (Some (errorCode lc msg)) (Some msg) None"
  by (simp add: processAccount_def)

lemma upt_shift: "map f [Suc 0..<Suc n] = map (\<lambda>k. f (Suc k)) [0..<n]"
  by (simp add: map_Suc_upt [symmetric] del: upt_Suc)

lemma authLoop_completes:
  "\<forall>k < length accs. newContext (world (i + k)) = Inr () \<Longrightarrow>
     authLoop lc world flow outDir timeoutMs dp i accs results =
       Inr (results @ map (\<lambda>k. processAccount lc (world (i + k)) flow outDir timeoutMs dp (accs ! k))
                       [0..<length accs])"
proof (induction accs arbitrary: i results)
  case Nil
  then show ?case by simp
next
  case (Cons a accs)
  have first: "newContext (world i) = Inr ()"
    using Cons.prems by (metis add.right_neutral length_greater_0_conv list.distinct(1))
  have rest: "\<forall>k < length accs. newContext (world (Suc i + k)) = Inr ()"
    using Cons.prems by (metis Suc_less_eq add_Suc_shift length_Cons)
  have "[0..<length (a # accs)] = 0 # [Suc 0..<Suc (length accs)]"
    by (simp add: upt_conv_Cons del: upt_Suc)
  then have "map (\<lambda>k. processAccount lc (world (i + k)) flow outDir timeoutMs dp ((a # accs) ! k))
        [0..<length (a # accs)] =
      processAccount lc (world i) flow outDir timeoutMs dp a #
      map (\<lambda>k. processAccount lc (world (Suc i + k)) flow outDir timeoutMs dp (accs ! k)) [0..<length accs]"
    by (simp add: upt_shift del: upt_Suc)
  then show ?case
    using Cons.IH [OF rest] first by simp
qed

lemma authLoop_returns:
  "authLoop lc world flow outDir timeoutMs dp i accs results = Inr rs \<Longrightarrow>
     \<forall>k < length accs. newContext (world (i + k)) = Inr ()"
proof (induction accs arbitrary: i results)
  case Nil
  then show ?case by simp
next
  case (Cons a accs)
  from Cons.prems have first: "newContext (world i) = Inr ()"
    and r: "authLoop lc world flow outDir timeoutMs dp (Suc i) accs
        (results @ [processAccount lc (world i) flow outDir timeoutMs dp a]) = Inr rs"
    by (auto split: sum.splits)
  have "\<forall>k < length accs. newContext (world (Suc i + k)) = Inr ()"
    by (rule Cons.IH [OF r])
  with first show ?case
    by (auto simp: less_Suc_eq_0_disj)
qed

lemma authLoop_iff:
  "(\<exists>rs. authLoop lc world flow outDir timeoutMs dp 0 accountList [] = Inr rs) \<longleftrightarrow>
     (\<forall>i < length accountList. newContext (world i) = Inr ())"
  using authLoop_returns [of lc world flow outDir timeoutMs dp 0 accountList "[]"]
    authLoop_completes [of accountList world 0 lc flow outDir timeoutMs dp "[]"]
  by auto

lemma authLoop_results:
  assumes r: "authLoop lc world flow outDir timeoutMs dp 0 accountList [] = Inr results"
  shows "results = map (\<lambda>i. processAccount lc (world i) flow outDir timeoutMs dp (accountList ! i))
            [0..<length accountList]"
proof -
  have "\<forall>i < length accountList. newContext (world i) = Inr ()"
    using authLoop_iff [of lc world flow outDir timeoutMs dp accountList] r by blast
  then show ?thesis
    using authLoop_completes [of accountList world 0 lc flow outDir timeoutMs dp "[]"] r by simp
qed

lemma runAuthCommand_iff:
  "runAuthCommand lc rw flow outDir timeoutMs dp accountList = Inr results \<longleftrightarrow>
     launch rw = Inr () \<and>
     authLoop lc (iteration rw) flow outDir timeoutMs dp 0 accountList [] = Inr results \<and>
     browserClose rw = Inr () \<and> writeReport rw = Inr ()"
  by (auto simp: runAuthCommand_def split: sum.splits)

text \<open>
  C1, as amended. A run that is not a dry run reports a results list exactly
  when \<open>chromium.launch\<close> returns, the loop returns that list,
  \<open>browser.close()\<close> returns and the report is written; and the loop returns
  exactly when \<open>browser.newContext()\<close> returns in every iteration. The list of
  the loop then has one result per account, in the order of the accounts, with
  the account's email, each being what the \<open>try\<close>, \<open>catch\<close> and \<open>finally\<close> of
  that iteration push, with a status among success, failed and skipped (and
  never skipped).
\<close>
theorem runAuthCommand_results:
  "(runAuthCommand lc rw flow outDir timeoutMs dp accountList = Inr results \<longleftrightarrow>
      launch rw = Inr () \<and>
      authLoop lc (iteration rw) flow outDir timeoutMs dp 0 accountList [] = Inr results \<and>
      browserClose rw = Inr () \<and> writeReport rw = Inr ()) \<and>
   ((\<exists>rs. authLoop lc (iteration rw) flow outDir timeoutMs dp 0 accountList [] = Inr rs) \<longleftrightarrow>
      (\<forall>i < length accountList. newContext (iteration rw i) = Inr ())) \<and>
   (authLoop lc (iteration rw) flow outDir timeoutMs dp 0 accountList [] = Inr results \<longrightarrow>
      length results = length accountList \<and>
      map email results = map AccountCredential.email accountList \<and>
      (\<forall>i < length accountList.
         results ! i = processAccount lc (iteration rw i) flow outDir timeoutMs dp (accountList ! i) \<and>
         status (results ! i) \<in> {Success, Failed, Skipped} \<and>
         status (results ! i) \<noteq> Skipped))"
proof (intro conjI impI)
  show "runAuthCommand lc rw flow outDir timeoutMs dp accountList = Inr results \<longleftrightarrow>
      launch rw = Inr () \<and>
      authLoop lc (iteration rw) flow outDir timeoutMs dp 0 accountList [] = Inr results \<and>
      browserClose rw = Inr () \<and> writeReport rw = Inr ()"
    by (rule runAuthCommand_iff)
next
  show "(\<exists>rs. authLoop lc (iteration rw) flow outDir timeoutMs dp 0 accountList [] = Inr rs) \<longleftrightarrow>
      (\<forall>i < length accountList. newContext (iteration rw i) = Inr ())"
    by (rule authLoop_iff)
next
  assume r: "authLoop lc (iteration rw) flow outDir timeoutMs dp 0 accountList [] = Inr results"
  have eq: "results = map (\<lambda>i. processAccount lc (iteration rw i) flow outDir timeoutMs dp (accountList ! i))
            [0..<length accountList]"
    by (rule authLoop_results [OF r])
  show "length results = length accountList"
    by (simp add: eq)
  show "map email results = map AccountCredential.email accountList"
    by (rule nth_equalityI) (simp_all add: eq processAccount_email)
  show "\<forall>i < length accountList.
         results ! i = processAccount lc (iteration rw i) flow outDir timeoutMs dp (accountList ! i) \<and>
         status (results ! i) \<in> {Success, Failed, Skipped} \<and>
         status (results ! i) \<noteq> Skipped"
  proof (intro allI impI)
    fix i assume i: "i < length accountList"
    have "status (results ! i) \<in> {Success, Failed, Skipped}"
      by (cases "status (results ! i)") simp_all
    with i show "results ! i = processAccount lc (iteration rw i) flow outDir timeoutMs dp (accountList ! i) \<and>
         status (results ! i) \<in> {Success, Failed, Skipped} \<and>
         status (results ! i) \<noteq> Skipped"
      by (simp add: eq processAccount_status)
  qed
qed

text \<open>
  C7, as amended. An exception thrown inside the \<open>try\<close> of an iteration is
  recorded as a failed result whose code comes from the lower-cased message:
  \<open>management key\<close> gives \<open>CPAMC_LOGIN_FAILED\<close>, else \<open>auth url\<close> gives
  \<open>CPAMC_LINK_NOT_FOUND\<close>, else \<open>timeout\<close> gives \<open>LOGIN_REJECTED\<close>, else \<open>UNKNOWN\<close>.
  When \<open>browser.newContext()\<close> returns in every iteration the loop goes through
  all the accounts, whatever is thrown inside the \<open>try\<close> blocks, and its list
  holds that result for each iteration whose \<open>try\<close> threw; when moreover
  \<open>chromium.launch\<close>, \<open>browser.close()\<close> and the writing of the report return,
  that list is the one the run reports.
\<close>
theorem exception_recorded_and_batch_continues:
  "(tryBlock lc w flow outDir timeoutMs dp account = Inl msg \<longrightarrow>
      processAccount lc w flow outDir timeoutMs dp account =
        mkResult w dp account Failed
          (Some (if str_includes (lc msg) (lit ''management key'') then CPAMC_LOGIN_FAILED
                 else if str_includes (lc msg) (lit ''auth url'') then CPAMC_LINK_NOT_FOUND
                 else if str_includes (lc msg) (lit ''timeout'') then LOGIN_REJECTED
                 else UNKNOWN))
          (Some msg) None) \<and>
   ((\<forall>i < length accountList. newContext (iteration rw i) = Inr ()) \<longrightarrow>
      (\<exists>results. authLoop lc (iteration rw) flow outDir timeoutMs dp 0 accountList [] = Inr results \<and>
         length results = length accountList \<and>
         (\<forall>i < length accountList. \<forall>m.
            tryBlock lc (iteration rw i) flow outDir timeoutMs dp (accountList ! i) = Inl m \<longrightarrow>
              results ! i =
                mkResult (iteration rw i) dp (accountList ! i) Failed (Some (errorCode lc m)) (Some m) None) \<and>
         (launch rw = Inr () \<and> browserClose rw = Inr () \<and> writeReport rw = Inr () \<longrightarrow>
            runAuthCommand lc rw flow outDir timeoutMs dp accountList = Inr results)))"
proof (intro conjI impI)
  assume "tryBlock lc w flow outDir timeoutMs dp account = Inl msg"
  then show "processAccount lc w flow outDir timeoutMs dp account =
        mkResult w dp account Failed
          (Some (if str_includes (lc msg) (lit ''management key'') then CPAMC_LOGIN_FAILED
                 else if str_includes (lc msg) (lit ''auth url'') then CPAMC_LINK_NOT_FOUND
                 else if str_includes (lc msg) (lit ''timeout'') then LOGIN_REJECTED
                 else UNKNOWN))
          (Some msg) None"
    by (simp add: processAccount_caught errorCode_def Let_def)
next
  assume ok: "\<forall>i < length accountList. newContext (iteration rw i) = Inr ()"
  let ?rs = "map (\<lambda>i. processAccount lc (iteration rw i) flow outDir timeoutMs dp (accountList ! i))
            [0..<length accountList]"
  have loop: "authLoop lc (iteration rw) flow outDir timeoutMs dp 0 accountList [] = Inr ?rs"
    using authLoop_completes [of accountList "iteration rw" 0 lc flow outDir timeoutMs dp "[]"] ok
    by simp
  moreover have "length ?rs = length accountList" by simp
  moreover have "\<forall>i < length accountList. \<forall>m.
            tryBlock lc (iteration rw i) flow outDir timeoutMs dp (accountList ! i) = Inl m \<longrightarrow>
              ?rs ! i =
                mkResult (iteration rw i) dp (accountList ! i) Failed (Some (errorCode lc m)) (Some m) None"
    by (simp add: processAccount_caught)
  moreover have "launch rw = Inr () \<and> browserClose rw = Inr () \<and> writeReport rw = Inr () \<longrightarrow>
            runAuthCommand lc rw flow outDir timeoutMs dp accountList = Inr ?rs"
    using loop by (simp add: runAuthCommand_iff)
  ultimately show "\<exists>results. authLoop lc (iteration rw) flow outDir timeoutMs dp 0 accountList [] = Inr results \<and>
         length results = length accountList \<and>
         (\<forall>i < length accountList. \<forall>m.
            tryBlock lc (iteration rw i) flow outDir timeoutMs dp (accountList ! i) = Inl m \<longrightarrow>
              results ! i =
                mkResult (iteration rw i) dp (accountList ! i) Failed (Some (errorCode lc m)) (Some m) None) \<and>
         (launch rw = Inr () \<and> browserClose rw = Inr () \<and> writeReport rw = Inr () \<longrightarrow>
            runAuthCommand lc rw flow outDir timeoutMs dp accountList = Inr results)"
    by blast
qed

lemma gatherSignals_sources:
  assumes "gatherSignals lc w flow timeoutMs = Inr (Some (fr, ch, st))"
  shows "runLoginFlow w = Inr fr \<and>
     (ch \<longleftrightarrow> challenge fr \<or> (\<exists>pg. challengeProbe w = Inr pg \<and> detectChallenge lc pg flow)) \<and>
     pollCpamcAuthStatus w (if invalidCredentials fr \<or> ch then min timeoutMs 30000 else timeoutMs) = Inr st"
  using assms unfolding gatherSignals_def
  by (auto split: sum.splits option.splits if_splits)

lemma processAccount_reconcile:
  assumes "gatherSignals lc w flow timeoutMs = Inr (Some (fr, ch, st))"
  shows "processAccount lc w flow outDir timeoutMs dp account =
     (case reconcile lc w outDir timeoutMs dp account fr ch st of
        Inr r \<Rightarrow> r
      | Inl msg \<Rightarrow> mkResult w dp account Failed (Some (errorCode lc msg)) (Some msg) None)"
  by (simp add: processAccount_def tryBlock_def assms)

lemma processAccount_thrown:
  "gatherSignals lc w flow timeoutMs = Inl msg \<Longrightarrow>
     processAccount lc w flow outDir timeoutMs dp account =
       mkResult w dp account Failed (Some (errorCode lc msg)) (Some msg) None"
  by (simp add: processAccount_def tryBlock_def)

lemma processAccount_no_state:
  "gatherSignals lc w flow timeoutMs = Inr None \<Longrightarrow>
     processAccount lc w flow outDir timeoutMs dp account =
       mkResult w dp account Failed (Some CPAMC_LINK_NOT_FOUND)
         (Some (lit ''Auth URL state not found.'')) None"
  by (simp add: processAccount_def tryBlock_def)

lemma reconcile_precedence:
  assumes sig: "gatherSignals lc w flow timeoutMs = Inr (Some (fr, ch, st))"
  shows "runLoginFlow w = Inr fr \<and>
     (ch \<longleftrightarrow> challenge fr \<or> (\<exists>pg. challengeProbe w = Inr pg \<and> detectChallenge lc pg flow)) \<and>
     (invalidCredentials fr \<longrightarrow>
        status (processAccount lc w flow outDir timeoutMs dp account) = Failed \<and>
        code (processAccount lc w flow outDir timeoutMs dp account) = Some LOGIN_REJECTED) \<and>
     (\<not> invalidCredentials fr \<and> ch \<longrightarrow>
        status (processAccount lc w flow outDir timeoutMs dp account) = Failed \<and>
        code (processAccount lc w flow outDir timeoutMs dp account) = Some CHALLENGE_REQUIRED) \<and>
     (\<not> invalidCredentials fr \<and> \<not> ch \<and>
      (cpamcStatus st = StatusError \<or> cpamcStatus st = StatusWaiting) \<longrightarrow>
        status (processAccount lc w flow outDir timeoutMs dp account) = Failed \<and>
        code (processAccount lc w flow outDir timeoutMs dp account) = Some CPAMC_OAUTH_FAILED) \<and>
     (\<not> invalidCredentials fr \<and> \<not> ch \<and> cpamcStatus st = StatusSuccess \<longrightarrow>
        processAccount lc w flow outDir timeoutMs dp account =
          (case waitForAuthFileByEmail lc (authFiles w) (waitStarted w) outDir
                  (AccountCredential.email account) timeoutMs of
             Inl e \<Rightarrow> mkResult w dp account Failed (Some (errorCode lc e)) (Some e) None
           | Inr None \<Rightarrow>
               mkResult w dp account Failed (Some WRITE_FAILED)
                 (Some (lit ''OAuth completed but auth file not found.'')) None
           | Inr (Some f) \<Rightarrow>
               if f = [] then
                 mkResult w dp account Failed (Some WRITE_FAILED)
                   (Some (lit ''OAuth completed but auth file not found.'')) None
               else mkResult w dp account Success None None (Some f))) \<and>
     (status (processAccount lc w flow outDir timeoutMs dp account) = Success \<longrightarrow>
        \<not> invalidCredentials fr \<and> \<not> ch \<and> cpamcStatus st = StatusSuccess)"
proof -
  note pa = processAccount_reconcile [OF sig, of outDir dp account]
  have src: "runLoginFlow w = Inr fr"
    "ch \<longleftrightarrow> challenge fr \<or> (\<exists>pg. challengeProbe w = Inr pg \<and> detectChallenge lc pg flow)"
    using gatherSignals_sources [OF sig] by blast+
  have inv: "invalidCredentials fr \<Longrightarrow>
        status (processAccount lc w flow outDir timeoutMs dp account) = Failed \<and>
        code (processAccount lc w flow outDir timeoutMs dp account) = Some LOGIN_REJECTED"
    by (simp add: pa reconcile_def mkResult_fields)
  have chal: "\<not> invalidCredentials fr \<and> ch \<Longrightarrow>
        status (processAccount lc w flow outDir timeoutMs dp account) = Failed \<and>
        code (processAccount lc w flow outDir timeoutMs dp account) = Some CHALLENGE_REQUIRED"
    by (simp add: pa reconcile_def mkResult_fields)
  have cons: "\<not> invalidCredentials fr \<and> \<not> ch \<and>
      (cpamcStatus st = StatusError \<or> cpamcStatus st = StatusWaiting) \<Longrightarrow>
        status (processAccount lc w flow outDir timeoutMs dp account) = Failed \<and>
        code (processAccount lc w flow outDir timeoutMs dp account) = Some CPAMC_OAUTH_FAILED"
    by (auto simp: pa reconcile_def mkResult_fields)
  have succ: "\<not> invalidCredentials fr \<and> \<not> ch \<and> cpamcStatus st = StatusSuccess \<Longrightarrow>
        processAccount lc w flow outDir timeoutMs dp account =
          (case waitForAuthFileByEmail lc (authFiles w) (waitStarted w) outDir
                  (AccountCredential.email account) timeoutMs of
             Inl e \<Rightarrow> mkResult w dp account Failed (Some (errorCode lc e)) (Some e) None
           | Inr None \<Rightarrow>
               mkResult w dp account Failed (Some WRITE_FAILED)
                 (Some (lit ''OAuth completed but auth file not found.'')) None
           | Inr (Some f) \<Rightarrow>
               if f = [] then
                 mkResult w dp account Failed (Some WRITE_FAILED)
                   (Some (lit ''OAuth completed but auth file not found.'')) None
               else mkResult w dp account Success None None (Some f))"
    by (simp add: pa reconcile_def split: sum.splits option.splits)
  have only: "status (processAccount lc w flow outDir timeoutMs dp account) = Success \<Longrightarrow>
        \<not> invalidCredentials fr \<and> \<not> ch \<and> cpamcStatus st = StatusSuccess"
    using inv chal cons by (cases "cpamcStatus st") auto
  from src inv chal cons succ only show ?thesis by blast
qed

text \<open>
  C2, as amended. When the calls of an iteration return up to the status poll,
  with flow result \<open>fr\<close>, challenge flag \<open>ch\<close> (the flow's, or else that of
  \<open>detectChallenge\<close>) and console status \<open>st\<close>: invalid credentials give
  \<open>LOGIN_REJECTED\<close> whatever the console status; otherwise a challenge gives
  \<open>CHALLENGE_REQUIRED\<close>; otherwise a console status of error or waiting gives
  \<open>CPAMC_OAUTH_FAILED\<close>; otherwise the result is that of the artifact wait; and
  a success is recorded only in this last case. When one of these calls throws,
  the challenge probe and the status poll among them, the result is the one
  of the \<open>catch\<close> block, with the code chosen from the message of the error,
  whatever the flow reported; and when the authorization URL has no \<open>state\<close>
  the code is \<open>CPAMC_LINK_NOT_FOUND\<close>.
\<close>
theorem reconciliation_precedence:
  "(gatherSignals lc w flow timeoutMs = Inr (Some (fr, ch, st)) \<longrightarrow>
   runLoginFlow w = Inr fr \<and>
        (ch \<longleftrightarrow> challenge fr \<or> (\<exists>pg. challengeProbe w = Inr pg \<and> detectChallenge lc pg flow)) \<and>
        (invalidCredentials fr \<longrightarrow>
           status (processAccount lc w flow outDir timeoutMs dp account) = Failed \<and>
           code (processAccount lc w flow outDir timeoutMs dp account) = Some LOGIN_REJECTED) \<and>
        (\<not> invalidCredentials fr \<and> ch \<longrightarrow>
           status (processAccount lc w flow outDir timeoutMs dp account) = Failed \<and>
           code (processAccount lc w flow outDir timeoutMs dp account) = Some CHALLENGE_REQUIRED) \<and>
        (\<not> invalidCredentials fr \<and> \<not> ch \<and>
         (cpamcStatus st = StatusError \<or> cpamcStatus st = StatusWaiting) \<longrightarrow>
           status (processAccount lc w flow outDir timeoutMs dp account) = Failed \<and>
           code (processAccount lc w flow outDir timeoutMs dp account) = Some CPAMC_OAUTH_FAILED) \<and>
        (\<not> invalidCredentials fr \<and> \<not> ch \<and> cpamcStatus st = StatusSuccess \<longrightarrow>
           processAccount lc w flow outDir timeoutMs dp account =
             (case waitForAuthFileByEmail lc (authFiles w) (waitStarted w) outDir
                     (AccountCredential.email account) timeoutMs of
                Inl e \<Rightarrow> mkResult w dp account Failed (Some (errorCode lc e)) (Some e) None
              | Inr None \<Rightarrow>
                  mkResult w dp account Failed (Some WRITE_FAILED)
                    (Some (lit ''OAuth completed but auth file not found.'')) None
              | Inr (Some f) \<Rightarrow>
                  if f = [] then
                    mkResult w dp account Failed (Some WRITE_FAILED)
                      (Some (lit ''OAuth completed but auth file not found.'')) None
                  else mkResult w dp account Success None None (Some f))) \<and>
        (status (processAccount lc w flow outDir timeoutMs dp account) = Success \<longrightarrow>
           \<not> invalidCredentials fr \<and> \<not> ch \<and> cpamcStatus st = StatusSuccess)) \<and>
   (gatherSignals lc w flow timeoutMs = Inl msg \<longrightarrow>
      processAccount lc w flow outDir timeoutMs dp account =
        mkResult w dp account Failed (Some (errorCode lc msg)) (Some msg) None) \<and>
   (gatherSignals lc w flow timeoutMs = Inr None \<longrightarrow>
      processAccount lc w flow outDir timeoutMs dp account =
        mkResult w dp account Failed (Some CPAMC_LINK_NOT_FOUND)
          (Some (lit ''Auth URL state not found.'')) None)"
  using reconcile_precedence [of lc w flow timeoutMs fr ch st outDir dp account]
    processAccount_thrown [of lc w flow timeoutMs msg outDir dp account]
    processAccount_no_state [of lc w flow timeoutMs outDir dp account]
  by (intro conjI impI) blast+

lemma waitLoop_listing_error:
  "now - started < timeoutMs \<Longrightarrow> listing w now = Inl m \<Longrightarrow>
     waitLoop lc w authDir lowerEmail timeoutMs started now = Inl m"
  by (subst waitLoop.simps) simp

lemma waitFor_listing_error:
  "0 < timeoutMs \<Longrightarrow> listing w started = Inl m \<Longrightarrow>
     waitForAuthFileByEmail lc w started authDir mail timeoutMs = Inl m"
  by (simp add: waitForAuthFileByEmail_def waitLoop_listing_error)

lemma listing_error_recorded:
  assumes sig: "gatherSignals lc a flow timeoutMs = Inr (Some (fr, False, st))"
      and ok: "\<not> invalidCredentials fr" "cpamcStatus st = StatusSuccess"
      and t: "0 < timeoutMs"
      and l: "listing (authFiles a) (waitStarted a) = Inl m"
  shows "processAccount lc a flow outDir timeoutMs dp account =
     mkResult a dp account Failed (Some (errorCode lc m)) (Some m) None"
  unfolding processAccount_reconcile [OF sig, of outDir dp account]
  by (simp add: reconcile_def ok waitFor_listing_error [OF t l])

section \<open>The orchestrator at the example inputs\<close>

lemma consent_eval: "onCodexConsentPage consentPage"
  by (simp add: onCodexConsentPage_def consentPage_def frameLooksLikeConsent_def consentPattern_def
      asciiLowerCase_def asciiLower_def lit_def startsWith_def)

lemma otp_eval: "\<not> onCodexConsentPage otpPage"
  by (simp add: onCodexConsentPage_def otpPage_def frameLooksLikeConsent_def consentPattern_def
      asciiLowerCase_def asciiLower_def lit_def startsWith_def)

lemma plain_eval: "\<not> onCodexConsentPage plainPage"
  by (simp add: onCodexConsentPage_def plainPage_def frameLooksLikeConsent_def consentPattern_def
      asciiLowerCase_def asciiLower_def lit_def startsWith_def)

lemma plain_detect: "detectChallenge asciiLowerCase plainPage defaultFlow = False"
  by (simp add: detectChallenge_def plain_eval)
    (simp add: plainPage_def defaultFlow_def overlyBroad_def asciiLowerCase_def asciiLower_def lit_def
      startsWith_def)

lemma filler_lower: "asciiLowerCase (replicate n 120) = replicate n 120"
  by (simp add: asciiLowerCase_def asciiLower_def lit_def)

lemma filler_no_phrase:
  assumes "32 \<in> set p"
  shows "\<not> str_includes (replicate n 120) p"
proof
  assume "str_includes (replicate n 120) p"
  then have "set p \<subseteq> set (replicate n (120 :: 16 word))"
    by (rule str_includes_set)
  with assms have "(32 :: 16 word) \<in> set (replicate n 120)"
    by blast
  then show False by simp
qed

lemma long_eval: "\<not> onCodexConsentPage longPage"
proof -
  have cut: "take 12000 (replicate 12000 (120 :: 16 word) @ rest) = replicate 12000 120" for rest
    by simp
  have "\<not> consentPattern (replicate 12000 120)"
    unfolding consentPattern_def filler_lower
    by (simp add: filler_no_phrase lit_def)
  then show ?thesis
    by (simp add: onCodexConsentPage_def longPage_def frameLooksLikeConsent_def cut)
qed

lemma long_matches: "consentPattern (replicate 12000 120 @ lit ''Sign in to Codex with ChatGPT'')"
proof -
  have "asciiLowerCase (lit ''Sign in to Codex with ChatGPT'') =
      lit ''sign in '' @ lit ''to codex'' @ lit '' with chatgpt''"
    by (simp add: asciiLowerCase_def asciiLower_def lit_def)
  then have "asciiLowerCase (replicate 12000 120 @ lit ''Sign in to Codex with ChatGPT'') =
      (replicate 12000 120 @ lit ''sign in '') @ lit ''to codex'' @ lit '' with chatgpt''"
    using filler_lower [of 12000] by (simp add: asciiLowerCase_def)
  then have "str_includes (asciiLowerCase (replicate 12000 120 @ lit ''Sign in to Codex with ChatGPT''))
      (lit ''to codex'')"
    unfolding str_includes_iff by blast
  then show ?thesis
    by (simp add: consentPattern_def)
qed

lemma example_files_early:
  "artifactFiles (lit ''/auth'') [\<lparr>name = lit ''config.yaml'', isFile = True\<rparr>] = []"
  by (simp add: artifactFiles_def startsWith_def lit_def)

lemma example_files_late:
  "artifactFiles (lit ''/auth'') [\<lparr>name = lit ''config.yaml'', isFile = True\<rparr>,
       \<lparr>name = lit ''codex-a_x.com-free.json'', isFile = True\<rparr>] = [lit ''/auth/codex-a_x.com-free.json'']"
  by (simp add: artifactFiles_def startsWith_def endsWith_def path_join_def lit_def)

lemma example_lower:
  "asciiLowerCase (lit ''a@x.com'') = lit ''a@x.com''"
  "asciiLowerCase (lit ''A@x.com'') = lit ''a@x.com''"
  by (simp_all add: asciiLowerCase_def asciiLower_def lit_def)

lemma example_listing:
  "listing exampleFiles t = Inr (if t < 2000 then [\<lparr>name = lit ''config.yaml'', isFile = True\<rparr>]
                            else [\<lparr>name = lit ''config.yaml'', isFile = True\<rparr>,
                                  \<lparr>name = lit ''codex-a_x.com-free.json'', isFile = True\<rparr>])"
  "lag exampleFiles t = 5"
  "emailMatches asciiLowerCase exampleFiles t (lit ''a@x.com'') (lit ''/auth/codex-a_x.com-free.json'') =
     (\<not> t < 3000)"
  by (simp_all add: exampleFiles_def emailMatches_def example_lower)

lemma example_wait:
  "waitForAuthFileByEmail asciiLowerCase exampleFiles 0 (lit ''/auth'') (lit ''a@x.com'') 5000 =
     Inr (Some (lit ''/auth/codex-a_x.com-free.json''))"
  by (simp add: waitForAuthFileByEmail_def example_lower waitLoop.simps example_listing
      example_files_early example_files_late)

lemma missing_wait:
  "waitForAuthFileByEmail asciiLowerCase missingDir 0 (lit ''/auth'') (lit ''a@x.com'') 5000 =
     Inl (lit ''ENOENT: no such file or directory, scandir /auth'')"
  by (simp add: waitForAuthFileByEmail_def waitLoop.simps missingDir_def)

lemma example_signals:
  "gatherSignals asciiLowerCase exampleAttempt defaultFlow timeoutMs =
     Inr (Some (\<lparr> finalUrl = lit ''http://localhost:1455/auth/callback?code=xyz'',
               challenge = False, invalidCredentials = False,
               callbackUrl = Some (lit ''http://localhost:1455/auth/callback?code=xyz'') \<rparr>, False,
               \<lparr> cpamcStatus = StatusSuccess, cpamcMessage = Some (lit ''ok'') \<rparr>))"
  by (simp add: gatherSignals_def exampleAttempt_def plain_detect)

lemma missing_signals:
  "gatherSignals asciiLowerCase missingDirAttempt defaultFlow timeoutMs =
     Inr (Some (\<lparr> finalUrl = lit ''http://localhost:1455/auth/callback?code=xyz'',
               challenge = False, invalidCredentials = False,
               callbackUrl = Some (lit ''http://localhost:1455/auth/callback?code=xyz'') \<rparr>, False,
               \<lparr> cpamcStatus = StatusSuccess, cpamcMessage = Some (lit ''ok'') \<rparr>))"
  by (simp add: gatherSignals_def missingDirAttempt_def exampleAttempt_def plain_detect)

lemma rejected_signals:
  "gatherSignals asciiLowerCase rejectedAttempt defaultFlow timeoutMs =
     Inr (Some (\<lparr> finalUrl = lit ''https://auth.openai.com/log-in/password'',
             challenge = False, invalidCredentials = True, callbackUrl = None \<rparr>, False,
               \<lparr> cpamcStatus = StatusSuccess, cpamcMessage = Some (lit ''ok'') \<rparr>))"
  by (simp add: gatherSignals_def rejectedAttempt_def exampleAttempt_def plain_detect)

lemma pollFails_signals:
  "gatherSignals asciiLowerCase rejectedPollFails defaultFlow timeoutMs =
     Inl (lit ''page.evaluate: TypeError: Failed to fetch'')"
  by (simp add: gatherSignals_def rejectedPollFails_def rejectedAttempt_def exampleAttempt_def
      plain_detect)

lemma badKey_try:
  "tryBlock lc badKeyAttempt flow outDir timeoutMs dp account =
     Inl (lit ''CPAMC login failed: invalid management key'')"
  by (simp add: tryBlock_def gatherSignals_def badKeyAttempt_def exampleAttempt_def)

lemma badKey_code:
  "errorCode asciiLowerCase (lit ''CPAMC login failed: invalid management key'') = CPAMC_LOGIN_FAILED"
  by (simp add: errorCode_def asciiLowerCase_def asciiLower_def lit_def startsWith_def)

lemma enoent_code:
  "errorCode asciiLowerCase (lit ''ENOENT: no such file or directory, scandir /auth'') = UNKNOWN"
  by (simp add: errorCode_def asciiLowerCase_def asciiLower_def lit_def startsWith_def)

lemma fetch_code:
  "errorCode asciiLowerCase (lit ''page.evaluate: TypeError: Failed to fetch'') = UNKNOWN"
  by (simp add: errorCode_def asciiLowerCase_def asciiLower_def lit_def startsWith_def)

lemma example_process:
  "processAccount asciiLowerCase exampleAttempt defaultFlow (lit ''/auth'') 5000 (lit ''free'') exampleAccount =
     mkResult exampleAttempt (lit ''free'') exampleAccount Success None None
       (Some (lit ''/auth/codex-a_x.com-free.json''))"
proof -
  have "authFiles exampleAttempt = exampleFiles" "waitStarted exampleAttempt = 0"
    "AccountCredential.email exampleAccount = lit ''a@x.com''"
    by (simp_all add: exampleAttempt_def exampleAccount_def)
  then show ?thesis
    by (simp add: processAccount_reconcile [OF example_signals] reconcile_def example_wait)
qed

lemma example_world:
  "launch exampleWorld = Inr ()" "browserClose exampleWorld = Inr ()" "writeReport exampleWorld = Inr ()"
  "iteration exampleWorld 0 = badKeyAttempt" "iteration exampleWorld (Suc 0) = exampleAttempt"
  "newContext badKeyAttempt = Inr ()" "newContext exampleAttempt = Inr ()"
  by (simp_all add: exampleWorld_def badKeyAttempt_def exampleAttempt_def)

lemma closed_world:
  "launch closedWorld = Inr ()" "browserClose closedWorld = Inr ()" "writeReport closedWorld = Inr ()"
  "iteration closedWorld 0 = badKeyAttempt" "iteration closedWorld (Suc 0) = closedAttempt"
  "newContext closedAttempt = Inl (lit ''browser.newContext: Target page, context or browser has been closed'')"
  by (simp_all add: closedWorld_def closedAttempt_def exampleAttempt_def browserClosed_def)

lemma closeFails_world:
  "launch closeFailsWorld = Inr ()" "writeReport closeFailsWorld = Inr ()"
  "browserClose closeFailsWorld = Inl (lit ''browser.close: Connection closed'')"
  "iteration closeFailsWorld 0 = badKeyAttempt" "iteration closeFailsWorld (Suc 0) = exampleAttempt"
  by (simp_all add: closeFailsWorld_def exampleWorld_def)

text \<open>C9 at a consent page, a page with a one-time-code input and a plain page.\<close>
theorem detectChallenge_spec_witness:
  "onCodexConsentPage consentPage \<and>
   visible consentPage (lit ''input[name='otp']'') \<and>
   detectChallenge asciiLowerCase consentPage defaultFlow = False \<and>
   \<not> onCodexConsentPage otpPage \<and>
   detectChallenge asciiLowerCase otpPage defaultFlow = True \<and>
   \<not> onCodexConsentPage plainPage \<and>
   detectChallenge asciiLowerCase plainPage defaultFlow = False"
proof -
  have v: "visible consentPage (lit ''input[name='otp']'')"
    by (simp add: consentPage_def)
  have c: "detectChallenge asciiLowerCase consentPage defaultFlow = False"
    using detectChallenge_spec [of consentPage asciiLowerCase defaultFlow] consent_eval by blast
  have "\<exists>selector \<in> set (challengeSelectors defaultFlow). visible otpPage selector"
    by (simp add: defaultFlow_def otpPage_def)
  then have o: "detectChallenge asciiLowerCase otpPage defaultFlow = True"
    using detectChallenge_spec [of otpPage asciiLowerCase defaultFlow] otp_eval by blast
  from v c o consent_eval otp_eval plain_eval plain_detect show ?thesis by blast
qed

text \<open>
  C9 as stated fails: the only frame of the page shows the consent phrase, so
  its body text matches the consent pattern, but the phrase starts after the
  first 12000 code units; a one-time-code field is visible, and
  \<open>detectChallenge\<close> returns true, whatever \<open>toLowerCase\<close> does.
\<close>
theorem detectChallenge_cut_counterexample:
  "frames longPage = [Some (replicate 12000 120 @ lit ''Sign in to Codex with ChatGPT'')] \<and>
   consentPattern (replicate 12000 120 @ lit ''Sign in to Codex with ChatGPT'') \<and>
   visible longPage (lit ''input[name='otp']'') \<and>
   (\<forall>toLowerCase. detectChallenge toLowerCase longPage defaultFlow = True)"
proof -
  have f: "frames longPage = [Some (replicate 12000 120 @ lit ''Sign in to Codex with ChatGPT'')]"
    and v: "visible longPage (lit ''input[name='otp']'')"
    by (simp_all add: longPage_def)
  have "list_ex (visible longPage) (challengeSelectors defaultFlow)"
    by (simp add: defaultFlow_def longPage_def)
  then have "detectChallenge toLowerCase longPage defaultFlow = True" for toLowerCase
    by (simp add: detectChallenge_def long_eval)
  with f v long_matches show ?thesis by blast
qed

text \<open>
  C1 as stated fails. When \<open>browser.newContext()\<close> throws for the second
  account, the loop is left and the run ends with that error, without a results
  list, although the first account has been processed. When
  \<open>browser.close()\<close> throws after a loop that processed both accounts, the run
  ends with that error and reports no results list either.
\<close>
theorem runAuthCommand_abort_counterexample:
  "launch closedWorld = Inr () \<and> browserClose closedWorld = Inr () \<and> writeReport closedWorld = Inr () \<and>
   newContext (iteration closedWorld 0) = Inr () \<and>
   newContext (iteration closedWorld 1) =
     Inl (lit ''browser.newContext: Target page, context or browser has been closed'') \<and>
   (\<forall>toLowerCase.
      runAuthCommand toLowerCase closedWorld defaultFlow (lit ''/auth'') 5000 (lit ''free'')
        [exampleAccount, secondAccount] =
      Inl (lit ''browser.newContext: Target page, context or browser has been closed'')) \<and>
   launch closeFailsWorld = Inr () \<and> writeReport closeFailsWorld = Inr () \<and>
   newContext (iteration closeFailsWorld 0) = Inr () \<and>
   newContext (iteration closeFailsWorld 1) = Inr () \<and>
   browserClose closeFailsWorld = Inl (lit ''browser.close: Connection closed'') \<and>
   (\<forall>toLowerCase.
      runAuthCommand toLowerCase closeFailsWorld defaultFlow (lit ''/auth'') 5000 (lit ''free'')
        [exampleAccount, secondAccount] =
      Inl (lit ''browser.close: Connection closed''))"
  by (simp add: runAuthCommand_def closed_world closeFails_world example_world)

text \<open>
  C7 as stated fails: the exception of the first account is caught inside the
  \<open>try\<close>; the one thrown by \<open>browser.newContext()\<close> for the second account is not,
  and it ends the run.
\<close>
theorem exception_aborts_batch_counterexample:
  "(\<forall>toLowerCase.
      tryBlock toLowerCase (iteration closedWorld 0) defaultFlow (lit ''/auth'') 5000 (lit ''free'')
        exampleAccount =
      Inl (lit ''CPAMC login failed: invalid management key'')) \<and>
   newContext (iteration closedWorld 1) =
     Inl (lit ''browser.newContext: Target page, context or browser has been closed'') \<and>
   launch closedWorld = Inr () \<and> browserClose closedWorld = Inr () \<and> writeReport closedWorld = Inr () \<and>
   (\<forall>toLowerCase.
      authLoop toLowerCase (iteration closedWorld) defaultFlow (lit ''/auth'') 5000 (lit ''free'') 0
        [exampleAccount, secondAccount] [] =
      Inl (lit ''browser.newContext: Target page, context or browser has been closed'')) \<and>
   (\<forall>toLowerCase.
      runAuthCommand toLowerCase closedWorld defaultFlow (lit ''/auth'') 5000 (lit ''free'')
        [exampleAccount, secondAccount] =
      Inl (lit ''browser.newContext: Target page, context or browser has been closed''))"
  by (simp add: runAuthCommand_def closed_world example_world badKey_try)

text \<open>
  C2 as stated fails: the flow reports invalid credentials and the status poll
  throws; the result is the one of the \<open>catch\<close> block, with the code \<open>UNKNOWN\<close>.
\<close>
theorem reconciliation_poll_throws_counterexample:
  "runLoginFlow rejectedPollFails =
     Inr \<lparr> finalUrl = lit ''https://auth.openai.com/log-in/password'',
           challenge = False, invalidCredentials = True, callbackUrl = None \<rparr> \<and>
   pollCpamcAuthStatus rejectedPollFails (min 5000 30000) =
     Inl (lit ''page.evaluate: TypeError: Failed to fetch'') \<and>
   processAccount asciiLowerCase rejectedPollFails defaultFlow (lit ''/auth'') 5000 (lit ''free'') exampleAccount =
     mkResult rejectedPollFails (lit ''free'') exampleAccount Failed (Some UNKNOWN)
       (Some (lit ''page.evaluate: TypeError: Failed to fetch'')) None \<and>
   code (processAccount asciiLowerCase rejectedPollFails defaultFlow (lit ''/auth'') 5000 (lit ''free'')
           exampleAccount) \<noteq> Some LOGIN_REJECTED"
proof -
  have "processAccount asciiLowerCase rejectedPollFails defaultFlow (lit ''/auth'') 5000 (lit ''free'') exampleAccount =
     mkResult rejectedPollFails (lit ''free'') exampleAccount Failed (Some UNKNOWN)
       (Some (lit ''page.evaluate: TypeError: Failed to fetch'')) None"
    by (simp add: processAccount_thrown [OF pollFails_signals] fetch_code)
  then show ?thesis
    by (simp add: mkResult_fields)
      (simp add: rejectedPollFails_def rejectedAttempt_def exampleAttempt_def)
qed

text \<open>
  C2 at rejected credentials with a console success, at a success, and at a
  console login that throws.
\<close>
theorem reconciliation_precedence_witness:
  "gatherSignals asciiLowerCase rejectedAttempt defaultFlow 5000 =
     Inr (Some (\<lparr> finalUrl = lit ''https://auth.openai.com/log-in/password'',
             challenge = False, invalidCredentials = True, callbackUrl = None \<rparr>, False,
               \<lparr> cpamcStatus = StatusSuccess, cpamcMessage = Some (lit ''ok'') \<rparr>)) \<and>
   status (processAccount asciiLowerCase rejectedAttempt defaultFlow (lit ''/auth'') 5000 (lit ''free'')
             exampleAccount) = Failed \<and>
   code (processAccount asciiLowerCase rejectedAttempt defaultFlow (lit ''/auth'') 5000 (lit ''free'')
           exampleAccount) = Some LOGIN_REJECTED \<and>
   gatherSignals asciiLowerCase exampleAttempt defaultFlow 5000 =
     Inr (Some (\<lparr> finalUrl = lit ''http://localhost:1455/auth/callback?code=xyz'',
               challenge = False, invalidCredentials = False,
               callbackUrl = Some (lit ''http://localhost:1455/auth/callback?code=xyz'') \<rparr>, False,
               \<lparr> cpamcStatus = StatusSuccess, cpamcMessage = Some (lit ''ok'') \<rparr>)) \<and>
   processAccount asciiLowerCase exampleAttempt defaultFlow (lit ''/auth'') 5000 (lit ''free'') exampleAccount =
     mkResult exampleAttempt (lit ''free'') exampleAccount Success None None
       (Some (lit ''/auth/codex-a_x.com-free.json'')) \<and>
   gatherSignals asciiLowerCase badKeyAttempt defaultFlow 5000 =
     Inl (lit ''CPAMC login failed: invalid management key'') \<and>
   processAccount asciiLowerCase badKeyAttempt defaultFlow (lit ''/auth'') 5000 (lit ''free'') exampleAccount =
     mkResult badKeyAttempt (lit ''free'') exampleAccount Failed (Some CPAMC_LOGIN_FAILED)
       (Some (lit ''CPAMC login failed: invalid management key'')) None"
proof -
  let ?rej = "\<lparr> finalUrl = lit ''https://auth.openai.com/log-in/password'',
             challenge = False, invalidCredentials = True, callbackUrl = None \<rparr>"
  let ?ok = "\<lparr> finalUrl = lit ''http://localhost:1455/auth/callback?code=xyz'',
               challenge = False, invalidCredentials = False,
               callbackUrl = Some (lit ''http://localhost:1455/auth/callback?code=xyz'') \<rparr>"
  let ?st = "\<lparr> cpamcStatus = StatusSuccess, cpamcMessage = Some (lit ''ok'') \<rparr>"
  let ?msg = "lit ''CPAMC login failed: invalid management key''"
  note rej = reconciliation_precedence
    [where lc = asciiLowerCase and w = rejectedAttempt and flow = defaultFlow and timeoutMs = 5000
       and fr = ?rej and ch = False and st = ?st
       and outDir = "lit ''/auth''" and dp = "lit ''free''" and account = exampleAccount,
     THEN conjunct1, THEN mp, OF rejected_signals]
  note suc = reconciliation_precedence
    [where lc = asciiLowerCase and w = exampleAttempt and flow = defaultFlow and timeoutMs = 5000
       and fr = ?ok and ch = False and st = ?st
       and outDir = "lit ''/auth''" and dp = "lit ''free''" and account = exampleAccount,
     THEN conjunct1, THEN mp, OF example_signals]
  have bk: "gatherSignals asciiLowerCase badKeyAttempt defaultFlow 5000 = Inl ?msg"
    by (simp add: gatherSignals_def badKeyAttempt_def exampleAttempt_def)
  note thr = reconciliation_precedence
    [where lc = asciiLowerCase and w = badKeyAttempt and flow = defaultFlow and timeoutMs = 5000
       and msg = ?msg
       and outDir = "lit ''/auth''" and dp = "lit ''free''" and account = exampleAccount,
     THEN conjunct2, THEN conjunct1, THEN mp, OF bk]
  have r: "status (processAccount asciiLowerCase rejectedAttempt defaultFlow (lit ''/auth'') 5000 (lit ''free'')
             exampleAccount) = Failed \<and>
      code (processAccount asciiLowerCase rejectedAttempt defaultFlow (lit ''/auth'') 5000 (lit ''free'')
             exampleAccount) = Some LOGIN_REJECTED"
    using rej by simp
  have f: "authFiles exampleAttempt = exampleFiles" "waitStarted exampleAttempt = 0"
    "AccountCredential.email exampleAccount = lit ''a@x.com''"
    by (simp_all add: exampleAttempt_def exampleAccount_def)
  have s: "processAccount asciiLowerCase exampleAttempt defaultFlow (lit ''/auth'') 5000 (lit ''free'') exampleAccount =
     mkResult exampleAttempt (lit ''free'') exampleAccount Success None None
       (Some (lit ''/auth/codex-a_x.com-free.json''))"
    using suc by (simp add: f example_wait)
  have t: "processAccount asciiLowerCase badKeyAttempt defaultFlow (lit ''/auth'') 5000 (lit ''free'') exampleAccount =
     mkResult badKeyAttempt (lit ''free'') exampleAccount Failed (Some CPAMC_LOGIN_FAILED) (Some ?msg) None"
    using thr by (simp add: badKey_code)
  from r s t bk show ?thesis
    by (simp add: rejected_signals example_signals)
qed

text \<open>C7 at a run of two accounts whose first console login throws.\<close>
theorem exception_recorded_and_batch_continues_witness:
  "tryBlock asciiLowerCase badKeyAttempt defaultFlow (lit ''/auth'') 5000 (lit ''free'') secondAccount =
     Inl (lit ''CPAMC login failed: invalid management key'') \<and>
   processAccount asciiLowerCase badKeyAttempt defaultFlow (lit ''/auth'') 5000 (lit ''free'') secondAccount =
     mkResult badKeyAttempt (lit ''free'') secondAccount Failed (Some CPAMC_LOGIN_FAILED)
       (Some (lit ''CPAMC login failed: invalid management key'')) None \<and>
   newContext (iteration exampleWorld 0) = Inr () \<and> newContext (iteration exampleWorld 1) = Inr () \<and>
   launch exampleWorld = Inr () \<and> browserClose exampleWorld = Inr () \<and> writeReport exampleWorld = Inr () \<and>
   (\<exists>results. authLoop asciiLowerCase (iteration exampleWorld) defaultFlow (lit ''/auth'') 5000 (lit ''free'') 0
        [secondAccount, exampleAccount] [] = Inr results \<and>
      runAuthCommand asciiLowerCase exampleWorld defaultFlow (lit ''/auth'') 5000 (lit ''free'')
        [secondAccount, exampleAccount] = Inr results \<and>
      length results = 2 \<and>
      results ! 0 = mkResult badKeyAttempt (lit ''free'') secondAccount Failed (Some CPAMC_LOGIN_FAILED)
        (Some (lit ''CPAMC login failed: invalid management key'')) None)"
proof -
  let ?msg = "lit ''CPAMC login failed: invalid management key''"
  let ?accs = "[secondAccount, exampleAccount]"
  note inst = exception_recorded_and_batch_continues
    [where lc = asciiLowerCase and w = badKeyAttempt and flow = defaultFlow and outDir = "lit ''/auth''"
       and timeoutMs = 5000 and dp = "lit ''free''" and account = secondAccount and msg = ?msg
       and accountList = ?accs and rw = exampleWorld]
  have inc: "str_includes (asciiLowerCase ?msg) (lit ''management key'')"
    by (simp add: asciiLowerCase_def asciiLower_def lit_def startsWith_def)
  have bt: "tryBlock asciiLowerCase badKeyAttempt defaultFlow (lit ''/auth'') 5000 (lit ''free'') secondAccount =
      Inl ?msg"
    by (rule badKey_try)
  have p: "processAccount asciiLowerCase badKeyAttempt defaultFlow (lit ''/auth'') 5000 (lit ''free'') secondAccount =
     mkResult badKeyAttempt (lit ''free'') secondAccount Failed (Some CPAMC_LOGIN_FAILED) (Some ?msg) None"
    using inst [THEN conjunct1] bt inc by simp
  have n: "newContext (iteration exampleWorld 0) = Inr ()" "newContext (iteration exampleWorld 1) = Inr ()"
    by (simp_all add: example_world)
  have ok: "\<forall>i < length ?accs. newContext (iteration exampleWorld i) = Inr ()"
    by (simp add: less_Suc_eq example_world)
  have run: "launch exampleWorld = Inr () \<and> browserClose exampleWorld = Inr () \<and> writeReport exampleWorld = Inr ()"
    by (simp add: example_world)
  from inst [THEN conjunct2, THEN mp, OF ok]
  obtain results where lp: "authLoop asciiLowerCase (iteration exampleWorld) defaultFlow (lit ''/auth'') 5000
        (lit ''free'') 0 ?accs [] = Inr results"
    and l: "length results = length ?accs"
    and c: "\<forall>i < length ?accs. \<forall>m.
        tryBlock asciiLowerCase (iteration exampleWorld i) defaultFlow (lit ''/auth'') 5000 (lit ''free'')
          (?accs ! i) = Inl m \<longrightarrow>
          results ! i = mkResult (iteration exampleWorld i) (lit ''free'') (?accs ! i) Failed
            (Some (errorCode asciiLowerCase m)) (Some m) None"
    and r: "launch exampleWorld = Inr () \<and> browserClose exampleWorld = Inr () \<and>
        writeReport exampleWorld = Inr () \<longrightarrow>
        runAuthCommand asciiLowerCase exampleWorld defaultFlow (lit ''/auth'') 5000 (lit ''free'') ?accs =
          Inr results"
    by blast
  have r0: "results ! 0 = mkResult badKeyAttempt (lit ''free'') secondAccount Failed (Some CPAMC_LOGIN_FAILED)
        (Some ?msg) None"
    using c [rule_format, of 0 ?msg] bt by (simp add: example_world badKey_code)
  have "runAuthCommand asciiLowerCase exampleWorld defaultFlow (lit ''/auth'') 5000 (lit ''free'') ?accs =
      Inr results"
    using r run by blast
  with lp l r0 have "\<exists>results. authLoop asciiLowerCase (iteration exampleWorld) defaultFlow (lit ''/auth'') 5000
        (lit ''free'') 0 ?accs [] = Inr results \<and>
      runAuthCommand asciiLowerCase exampleWorld defaultFlow (lit ''/auth'') 5000 (lit ''free'') ?accs =
        Inr results \<and>
      length results = 2 \<and>
      results ! 0 = mkResult badKeyAttempt (lit ''free'') secondAccount Failed (Some CPAMC_LOGIN_FAILED)
        (Some ?msg) None"
    by auto
  with p n bt run show ?thesis by blast
qed

text \<open>C1 at a run of two accounts, one failing and one succeeding.\<close>
theorem runAuthCommand_results_witness:
  "launch exampleWorld = Inr () \<and> browserClose exampleWorld = Inr () \<and> writeReport exampleWorld = Inr () \<and>
   newContext (iteration exampleWorld 0) = Inr () \<and> newContext (iteration exampleWorld 1) = Inr () \<and>
   (\<exists>results. runAuthCommand asciiLowerCase exampleWorld defaultFlow (lit ''/auth'') 5000 (lit ''free'')
        [secondAccount, exampleAccount] = Inr results \<and>
      length results = 2 \<and>
      map email results = [lit ''b@x.com'', lit ''a@x.com''] \<and>
      status (results ! 0) = Failed \<and> status (results ! 1) = Success)"
proof -
  let ?accs = "[secondAccount, exampleAccount]"
  have n: "newContext (iteration exampleWorld 0) = Inr ()" "newContext (iteration exampleWorld 1) = Inr ()"
    by (simp_all add: example_world)
  have ok: "\<forall>i < length ?accs. newContext (iteration exampleWorld i) = Inr ()"
    by (simp add: less_Suc_eq example_world)
  have run: "launch exampleWorld = Inr ()" "browserClose exampleWorld = Inr ()"
    "writeReport exampleWorld = Inr ()"
    by (simp_all add: example_world)
  obtain results where lp: "authLoop asciiLowerCase (iteration exampleWorld) defaultFlow (lit ''/auth'') 5000
        (lit ''free'') 0 ?accs [] = Inr results"
    using runAuthCommand_results
      [where lc = asciiLowerCase and rw = exampleWorld and flow = defaultFlow and outDir = "lit ''/auth''"
         and timeoutMs = 5000 and dp = "lit ''free''" and accountList = ?accs,
       THEN conjunct2, THEN conjunct1] ok
    by blast
  note inst = runAuthCommand_results
    [where lc = asciiLowerCase and rw = exampleWorld and flow = defaultFlow and outDir = "lit ''/auth''"
       and timeoutMs = 5000 and dp = "lit ''free''" and accountList = ?accs and results = results]
  have r: "runAuthCommand asciiLowerCase exampleWorld defaultFlow (lit ''/auth'') 5000 (lit ''free'') ?accs =
      Inr results"
    using inst [THEN conjunct1] lp run by blast
  from inst [THEN conjunct2, THEN conjunct2, THEN mp, OF lp]
  have l: "length results = length ?accs"
    and e: "map email results = map AccountCredential.email ?accs"
    and p: "\<forall>i < length ?accs.
        results ! i = processAccount asciiLowerCase (iteration exampleWorld i) defaultFlow (lit ''/auth'') 5000
          (lit ''free'') (?accs ! i) \<and>
        status (results ! i) \<in> {Success, Failed, Skipped} \<and> status (results ! i) \<noteq> Skipped"
    by blast+
  have "results ! 0 = processAccount asciiLowerCase badKeyAttempt defaultFlow (lit ''/auth'') 5000 (lit ''free'')
      secondAccount"
    using p [rule_format, of 0] by (simp add: example_world)
  then have s0: "status (results ! 0) = Failed"
    by (simp add: processAccount_caught [OF badKey_try] mkResult_fields)
  have "results ! 1 = processAccount asciiLowerCase exampleAttempt defaultFlow (lit ''/auth'') 5000 (lit ''free'')
      exampleAccount"
    using p [rule_format, of 1] by (simp add: example_world)
  then have s1: "status (results ! 1) = Success"
    by (simp add: example_process mkResult_fields)
  have e': "map email results = [lit ''b@x.com'', lit ''a@x.com'']"
    using e by (simp add: secondAccount_def exampleAccount_def)
  from n run r l e' s0 s1 show ?thesis by auto
qed

text \<open>
  C8. The console reports success, the account's credentials are accepted and
  no challenge shows, and the output directory does not exist. \<open>readdirSync\<close>
  throws at the first poll, outside the \<open>try\<close> of the verifier: the wait ends at
  once with that error instead of lasting until the timeout, the error reaches
  the \<open>catch\<close> block of the orchestrator, and the code recorded is \<open>UNKNOWN\<close>,
  not \<open>WRITE_FAILED\<close>.
\<close>
theorem missing_directory_records_unknown:
  "gatherSignals asciiLowerCase missingDirAttempt defaultFlow 5000 =
     Inr (Some (\<lparr> finalUrl = lit ''http://localhost:1455/auth/callback?code=xyz'',
               challenge = False, invalidCredentials = False,
               callbackUrl = Some (lit ''http://localhost:1455/auth/callback?code=xyz'') \<rparr>, False,
               \<lparr> cpamcStatus = StatusSuccess, cpamcMessage = Some (lit ''ok'') \<rparr>)) \<and>
   listing (authFiles missingDirAttempt) (waitStarted missingDirAttempt) =
     Inl (lit ''ENOENT: no such file or directory, scandir /auth'') \<and>
   waitForAuthFileByEmail asciiLowerCase (authFiles missingDirAttempt) (waitStarted missingDirAttempt)
     (lit ''/auth'') (AccountCredential.email exampleAccount) 5000 =
     Inl (lit ''ENOENT: no such file or directory, scandir /auth'') \<and>
   processAccount asciiLowerCase missingDirAttempt defaultFlow (lit ''/auth'') 5000 (lit ''free'') exampleAccount =
     mkResult missingDirAttempt (lit ''free'') exampleAccount Failed (Some UNKNOWN)
       (Some (lit ''ENOENT: no such file or directory, scandir /auth'')) None \<and>
   code (processAccount asciiLowerCase missingDirAttempt defaultFlow (lit ''/auth'') 5000 (lit ''free'')
           exampleAccount) \<noteq> Some WRITE_FAILED"
proof -
  have l: "listing (authFiles missingDirAttempt) (waitStarted missingDirAttempt) =
      Inl (lit ''ENOENT: no such file or directory, scandir /auth'')"
    by (simp add: missingDirAttempt_def exampleAttempt_def missingDir_def)
  have p: "processAccount asciiLowerCase missingDirAttempt defaultFlow (lit ''/auth'') 5000 (lit ''free'')
        exampleAccount =
      mkResult missingDirAttempt (lit ''free'') exampleAccount Failed (Some UNKNOWN)
        (Some (lit ''ENOENT: no such file or directory, scandir /auth'')) None"
    using listing_error_recorded [OF missing_signals [of 5000] _ _ _ l,
        where outDir = "lit ''/auth''" and dp = "lit ''free''" and account = exampleAccount]
    by (simp add: enoent_code)
  have w: "waitForAuthFileByEmail asciiLowerCase (authFiles missingDirAttempt) (waitStarted missingDirAttempt)
     (lit ''/auth'') (AccountCredential.email exampleAccount) 5000 =
     Inl (lit ''ENOENT: no such file or directory, scandir /auth'')"
    by (rule waitFor_listing_error [OF _ l]) simp
  from l p w show ?thesis
    by (simp add: missing_signals mkResult_fields)
qed

end
